theory Spec2Isabelle
  imports Main "HOL-Library.Char_ord" "HOL-Library.List_Lexorder" "HOL-Library.AList"
begin

section \<open>External collaborators\<close>

text \<open>
  The implementation consists of \<^verbatim>\<open>pedersen.js\<close> (the commitment engine) and
  \<^verbatim>\<open>server.js\<close> (token issuance and redemption). Both call libraries that are not
  part of the repository: the curve library, the big-number library, Node's crypto module
  and the JWT library. They are collected in one record that every function of the model
  receives as its first argument.

  Curve points are the elements of an arbitrary commutative group \<open>'p\<close>, written
  additively as the library does (\<^verbatim>\<open>P.add(Q)\<close> is \<open>P + Q\<close>, \<^verbatim>\<open>P.eq(Q)\<close> is \<open>P = Q\<close>, the
  point at infinity is \<open>0\<close>). The point at infinity has no coordinates: the library keeps
  \<^verbatim>\<open>null\<close> in their place, and \<^verbatim>\<open>getX()\<close>, \<^verbatim>\<open>getY()\<close> and the encoding of that
  point end in a \<^verbatim>\<open>TypeError\<close>. \<open>getX E P\<close>, \<open>getY E P\<close> and \<open>encodeCompressed E P\<close>
  are what the library returns for every other point \<open>P\<close>. Big numbers are natural
  numbers.
\<close>

datatype error = TypeError | LibraryError

record jwtPayload =
  jti :: string
  sub :: string
  policy :: string
  policyHash :: string
  commitment :: string
  actions :: "string list"

record 'p ext =
  ec_g :: 'p
  getX :: "'p \<Rightarrow> nat"
  getY :: "'p \<Rightarrow> nat"
  encodeCompressed :: "'p \<Rightarrow> string"
  sha256 :: "string \<Rightarrow> nat"
  randomBytes :: "nat \<Rightarrow> nat \<Rightarrow> nat"
  bnOtherText :: "string \<Rightarrow> nat option"
  jwtSign :: "jwtPayload \<Rightarrow> nat \<Rightarrow> string"
  jwtVerify :: "string \<Rightarrow> jwtPayload option"

text \<open>
  \<open>sha256 E s\<close> is the digest of \<open>s\<close> read as a big-endian number;
  \<open>randomBytes E i len\<close> is what the \<open>i\<close>-th call of \<^verbatim>\<open>crypto.randomBytes\<close> returns,
  read the same way, so the random source is a counter threaded through the model;
  \<open>bnOtherText E s\<close> is what \<^verbatim>\<open>new BN(s, 16)\<close> makes of a text \<open>s\<close> that has a character
  other than a hexadecimal digit, which differs between the versions of the big-number
  library (\<open>None\<close> when it throws);
  \<open>jwtSign E payload expiresIn\<close> and \<open>jwtVerify E token\<close> stand for signing and for
  signature and expiry checking with the server's secret.
\<close>

subsection \<open>JavaScript values\<close>

text \<open>
  A variable that holds a point may also hold \<^verbatim>\<open>null\<close> or \<^verbatim>\<open>undefined\<close>; calling a
  method of either is a \<^verbatim>\<open>TypeError\<close>.
\<close>

datatype 'p jsPoint = Null | Undefined | Point 'p

text \<open>
  A property look-up \<^verbatim>\<open>obj[key]\<close> finds the object's own property, or else a member that
  the object inherits from its prototype, or else nothing (\<^verbatim>\<open>undefined\<close>).
  \<open>Inherited t\<close> is an inherited member, \<open>t\<close> telling whether its value is truthy. The
  objects that the code uses as dictionaries are created by object literals, so their
  prototype is \<^verbatim>\<open>Object.prototype\<close>, whose members are the following; the value of each
  of them is a function, that of \<^verbatim>\<open>__proto__\<close> is \<^verbatim>\<open>Object.prototype\<close> itself.
\<close>

datatype 'a lookup = Own 'a | Inherited bool | Absent

definition objectPrototypeMembers :: "string list" where
  "objectPrototypeMembers =
     [''constructor'', ''__defineGetter__'', ''__defineSetter__'', ''hasOwnProperty'',
      ''__lookupGetter__'', ''__lookupSetter__'', ''isPrototypeOf'', ''propertyIsEnumerable'',
      ''toString'', ''valueOf'', ''__proto__'', ''toLocaleString'']"

definition memberGet :: "(string \<rightharpoonup> 'a) \<Rightarrow> string \<Rightarrow> 'a lookup" where
  "memberGet props key =
     (case props key of
        Some v \<Rightarrow> Own v
      | None \<Rightarrow> if key \<in> set objectPrototypeMembers then Inherited True else Absent)"

subsection \<open>Big numbers and hexadecimal text\<close>

text \<open>The order \<^verbatim>\<open>ec.n\<close> of secp256k1, as \<^verbatim>\<open>CURVE_INFO.n\<close> spells it.\<close>

definition ec_n :: nat where
  "ec_n = 0xFFFFFFFFFFFFFFFFFFFFFFFFFFFFFFFEBAAEDCE6AF48A03BBFD25E8CD0364141"

definition hexDigit :: "nat \<Rightarrow> char" where
  "hexDigit d = ''0123456789abcdef'' ! d"

text \<open>\<^verbatim>\<open>bn.toString(16)\<close>: lower-case digits, no leading zero, \<^verbatim>\<open>"0"\<close> for zero.\<close>

fun toString16 :: "nat \<Rightarrow> string" where
  "toString16 n =
     (if n < 16 then [hexDigit n] else toString16 (n div 16) @ [hexDigit (n mod 16)])"

declare toString16.simps [simp del]

definition padStart :: "nat \<Rightarrow> char \<Rightarrow> string \<Rightarrow> string" where
  "padStart targetLength c s = replicate (targetLength - length s) c @ s"

definition isHexDigit :: "char \<Rightarrow> bool" where
  "isHexDigit ch =
     (let code = (of_char ch :: nat)
      in (48 \<le> code \<and> code \<le> 57) \<or> (97 \<le> code \<and> code \<le> 102) \<or> (65 \<le> code \<and> code \<le> 70))"

definition hexValue :: "char \<Rightarrow> nat" where
  "hexValue ch =
     (let code = (of_char ch :: nat)
      in if 48 \<le> code \<and> code \<le> 57 then code - 48
         else if 97 \<le> code \<and> code \<le> 102 then code - 87
         else if 65 \<le> code \<and> code \<le> 70 then code - 55
         else 0)"

text \<open>The number that a text of hexadecimal digits spells (0 for the empty text).\<close>

definition hexNumber :: "string \<Rightarrow> nat" where
  "hexNumber hex = foldl (\<lambda>acc c. acc * 16 + hexValue c) 0 hex"

text \<open>
  \<^verbatim>\<open>deserializeBN(hex)\<close>, that is \<^verbatim>\<open>new BN(hex, 16)\<close>. On a text of hexadecimal digits
  all versions of the library agree; any other text is left to the library.
\<close>

definition deserializeBN :: "'p ext \<Rightarrow> string \<Rightarrow> error + nat" where
  "deserializeBN E hex =
     (if list_all isHexDigit hex then Inr (hexNumber hex)
      else (case bnOtherText E hex of None \<Rightarrow> Inl LibraryError | Some v \<Rightarrow> Inr v))"

definition serializeBN :: "nat \<Rightarrow> string" where
  "serializeBN bn = padStart 64 CHR ''0'' (toString16 bn)"

text \<open>\<^verbatim>\<open>crypto.createHash('sha256').update(data).digest('hex')\<close>: 64 hex digits.\<close>

definition sha256hex :: "'p ext \<Rightarrow> string \<Rightarrow> string" where
  "sha256hex E data = padStart 64 CHR ''0'' (toString16 (sha256 E data mod 2 ^ 256))"

text \<open>
  \<^verbatim>\<open>hashToScalar(data)\<close>; the text handed to \<^verbatim>\<open>new BN(hash, 16)\<close> is a hex digest.
\<close>

definition hashToScalar :: "'p ext \<Rightarrow> string \<Rightarrow> nat" where
  "hashToScalar E data = hexNumber (sha256hex E data) mod ec_n"

definition randomScalar :: "'p ext \<Rightarrow> nat \<Rightarrow> nat \<times> nat" where
  "randomScalar E rng = ((randomBytes E rng 32 mod 256 ^ 32) mod ec_n, Suc rng)"

subsection \<open>Points\<close>

text \<open>\<^verbatim>\<open>P.mul(k)\<close>: the \<open>k\<close>-fold sum of \<open>P\<close>.\<close>

primrec pointMul :: "'p::ab_group_add \<Rightarrow> nat \<Rightarrow> 'p" where
  "pointMul P 0 = 0"
| "pointMul P (Suc k) = P + pointMul P k"

text \<open>
  The second generator: \<^verbatim>\<open>ec.g.mul(ec.keyFromPrivate(H_seed).getPrivate())\<close>, the private
  key being the seed's digest reduced modulo the group order.
\<close>

definition ec_h :: "'p::ab_group_add ext \<Rightarrow> 'p" where
  "ec_h E = pointMul (ec_g E) (sha256 E ''VSDL_GENERATOR_H_SEED_V1'' mod 2 ^ 256 mod ec_n)"

text \<open>
  \<^verbatim>\<open>P.getX().toString(16)\<close> and \<^verbatim>\<open>P.getY().toString(16)\<close>: the getter of the point at
  infinity calls a method of \<^verbatim>\<open>null\<close>.
\<close>

definition coordText :: "('p \<Rightarrow> nat) \<Rightarrow> 'p::zero \<Rightarrow> error + string" where
  "coordText getter P = (if P = 0 then Inl TypeError else Inr (toString16 (getter P)))"

record pointXY =
  px :: string
  py :: string

text \<open>The object \<^verbatim>\<open>{x: P.getX()..., y: P.getY()...}\<close>, padded to 64 digits.\<close>

definition xy :: "'p::zero ext \<Rightarrow> 'p \<Rightarrow> error + pointXY" where
  "xy E P =
     (case coordText (getX E) P of
        Inl e \<Rightarrow> Inl e
      | Inr xs \<Rightarrow>
          (case coordText (getY E) P of
             Inl e \<Rightarrow> Inl e
           | Inr ys \<Rightarrow> Inr \<lparr>px = padStart 64 CHR ''0'' xs, py = padStart 64 CHR ''0'' ys\<rparr>))"

record serializedPoint =
  sx :: string
  sy :: string
  compressed :: string

definition serializePoint :: "'p::zero ext \<Rightarrow> 'p jsPoint \<Rightarrow> error + serializedPoint" where
  "serializePoint E point =
     (case point of
        Point P \<Rightarrow>
          (case xy E P of
             Inl e \<Rightarrow> Inl e
           | Inr c \<Rightarrow> Inr \<lparr>sx = px c, sy = py c, compressed = encodeCompressed E P\<rparr>)
      | _ \<Rightarrow> Inl TypeError)"

text \<open>
  \<^verbatim>\<open>X.add(Y)\<close> of the library, where \<open>X\<close> and \<open>Y\<close> may be \<^verbatim>\<open>null\<close> or
  \<^verbatim>\<open>undefined\<close>. The method first returns its argument as it is when the receiver is the
  point at infinity, and then reads a field of the argument.
\<close>

definition pointAdd :: "'p::ab_group_add jsPoint \<Rightarrow> 'p jsPoint \<Rightarrow> error + 'p jsPoint" where
  "pointAdd a b =
     (case a of
        Point p \<Rightarrow>
          (if p = 0 then Inr b
           else (case b of Point q \<Rightarrow> Inr (Point (p + q)) | _ \<Rightarrow> Inl TypeError))
      | _ \<Rightarrow> Inl TypeError)"

text \<open>
  The step that the three loops of the engine share:
  \<^verbatim>\<open>if (acc === null) acc = v; else acc = acc.add(v)\<close>.
\<close>

definition addTo :: "'p::ab_group_add jsPoint \<Rightarrow> 'p jsPoint \<Rightarrow> error + 'p jsPoint" where
  "addTo acc v = (case acc of Null \<Rightarrow> Inr v | _ \<Rightarrow> pointAdd acc v)"

section \<open>The commitment engine (pedersen.js)\<close>

text \<open>
  The \<^verbatim>\<open>math\<close> objects of the source carry display text. The model keeps the fields
  computed from the data and leaves out the constant captions (\<^verbatim>\<open>formula\<close>,
  \<^verbatim>\<open>equation\<close>, \<^verbatim>\<open>verification\<close>, \<^verbatim>\<open>result\<close>).
\<close>

record fieldMath =
  math_message :: string
  math_m :: string
  math_r :: string
  math_gm :: pointXY
  math_hr :: pointXY
  math_C :: pointXY

record 'p fieldCommitment =
  fieldName :: string
  fieldValue :: string
  fcCommitment :: 'p
  randomness :: nat
  math :: fieldMath

text \<open>The template \<^verbatim>\<open>`${fieldName}||${value}`\<close> that is hashed.\<close>

definition commitMessage :: "string \<Rightarrow> string \<Rightarrow> string" where
  "commitMessage name val = name @ ''||'' @ val"

text \<open>
  \<^verbatim>\<open>commitField(fieldName, value, r = null)\<close>. The blinding factor is \<open>Some r\<close> when the
  caller gives one and \<open>None\<close> for \<^verbatim>\<open>null\<close>; a big-number object is truthy, so
  \<^verbatim>\<open>r || randomScalar()\<close> draws exactly when \<open>r\<close> is \<^verbatim>\<open>null\<close>. Building the \<^verbatim>\<open>math\<close>
  object reads the coordinates of \<open>gm\<close>, \<open>hr\<close> and \<open>C\<close> in this order. The result comes
  with the state of the random source.
\<close>

definition commitField ::
  "'p::ab_group_add ext \<Rightarrow> nat \<Rightarrow> string \<Rightarrow> string \<Rightarrow> nat option \<Rightarrow>
   (error + 'p fieldCommitment) \<times> nat" where
  "commitField E rng name val r =
     (let (rand, rng') = (case r of Some r' \<Rightarrow> (r', rng) | None \<Rightarrow> randomScalar E rng);
          message = commitMessage name val;
          m = hashToScalar E message;
          gm = pointMul (ec_g E) m;
          hr = pointMul (ec_h E) rand;
          C = gm + hr
      in ((case xy E gm of
             Inl e \<Rightarrow> Inl e
           | Inr gmXY \<Rightarrow>
               (case xy E hr of
                  Inl e \<Rightarrow> Inl e
                | Inr hrXY \<Rightarrow>
                    (case xy E C of
                       Inl e \<Rightarrow> Inl e
                     | Inr cXY \<Rightarrow>
                         Inr \<lparr>fieldName = name, fieldValue = val, fcCommitment = C,
                              randomness = rand,
                              math = \<lparr>math_message = message, math_m = serializeBN m,
                                       math_r = serializeBN rand,
                                       math_gm = gmXY, math_hr = hrXY, math_C = cXY\<rparr>\<rparr>))),
          rng'))"

text \<open>
  The object \<^verbatim>\<open>fieldCommitments\<close> starts as \<^verbatim>\<open>{}\<close> and gets one property per field.
  An assignment to the key \<^verbatim>\<open>__proto__\<close> (unless the object has a property of its own
  by that name) does not create a property: it makes the assigned object the prototype. A look-up then finds that object under \<^verbatim>\<open>__proto__\<close>,
  and its five properties under their names as inherited members (of which \<^verbatim>\<open>value\<close> is
  a string, falsy when empty).
\<close>

record 'p fcObject =
  ownProps :: "string \<rightharpoonup> 'p fieldCommitment"
  protoObject :: "'p fieldCommitment option"

definition emptyObject :: "'p fcObject" where
  "emptyObject = \<lparr>ownProps = Map.empty, protoObject = None\<rparr>"

definition setFC :: "'p fcObject \<Rightarrow> string \<Rightarrow> 'p fieldCommitment \<Rightarrow> 'p fcObject" where
  "setFC obj key fc =
     (if key = ''__proto__'' \<and> ownProps obj key = None then obj\<lparr>protoObject := Some fc\<rparr>
      else obj\<lparr>ownProps := (ownProps obj)(key \<mapsto> fc)\<rparr>)"

definition getFC :: "'p fcObject \<Rightarrow> string \<Rightarrow> 'p fieldCommitment lookup" where
  "getFC obj key =
     (case ownProps obj key of
        Some fc \<Rightarrow> Own fc
      | None \<Rightarrow>
          (case protoObject obj of
             None \<Rightarrow> memberGet Map.empty key
           | Some fc \<Rightarrow>
               if key = ''__proto__'' then Own fc
               else if key = ''value'' then Inherited (fieldValue fc \<noteq> [])
               else if key \<in> set [''fieldName'', ''commitment'', ''randomness'', ''math'']
                 then Inherited True
               else memberGet Map.empty key))"

record recordMath =
  totalM :: string
  totalR :: string
  C_D :: pointXY
  fieldCount :: nat

record 'p commitResult =
  recordCommitment :: 'p
  fieldCommitments :: "'p fcObject"
  record_math :: recordMath

record 'p commitAcc =
  accFieldCommitments :: "'p fcObject"
  accTotalM :: nat
  accTotalR :: nat
  accRecordCommitment :: "'p jsPoint"
  accRng :: nat

text \<open>
  A record is the list \<^verbatim>\<open>Object.entries(record)\<close> of its fields. The loop of
  \<^verbatim>\<open>commitRecord\<close> over it, the accumulator starting from \<^verbatim>\<open>null\<close>; an exception of
  \<^verbatim>\<open>commitField\<close> ends it.
\<close>

fun commitRecordLoop ::
  "'p::ab_group_add ext \<Rightarrow> (string \<times> string) list \<Rightarrow> 'p commitAcc \<Rightarrow>
   (error + 'p commitAcc) \<times> nat" where
  "commitRecordLoop E [] acc = (Inr acc, accRng acc)"
| "commitRecordLoop E ((name, val) # entries) acc =
     (case commitField E (accRng acc) name val None of
        (Inl e, rng') \<Rightarrow> (Inl e, rng')
      | (Inr fc, rng') \<Rightarrow>
          (case addTo (accRecordCommitment acc) (Point (fcCommitment fc)) of
             Inl e \<Rightarrow> (Inl e, rng')
           | Inr c \<Rightarrow>
               commitRecordLoop E entries
                 \<lparr>accFieldCommitments = setFC (accFieldCommitments acc) name fc,
                  accTotalM = (accTotalM acc + hashToScalar E (commitMessage name val)) mod ec_n,
                  accTotalR = (accTotalR acc + randomness fc) mod ec_n,
                  accRecordCommitment = c,
                  accRng = rng'\<rparr>))"

text \<open>
  \<^verbatim>\<open>commitRecord(record)\<close>. Building the result reads the coordinates of
  \<^verbatim>\<open>recordCommitment\<close>, which is still \<^verbatim>\<open>null\<close> when the loop never ran: a
  \<^verbatim>\<open>TypeError\<close>.
\<close>

definition commitRecord ::
  "'p::ab_group_add ext \<Rightarrow> nat \<Rightarrow> (string \<times> string) list \<Rightarrow> (error + 'p commitResult) \<times> nat" where
  "commitRecord E rng entries =
     (case commitRecordLoop E entries
             \<lparr>accFieldCommitments = emptyObject, accTotalM = 0, accTotalR = 0,
              accRecordCommitment = Null, accRng = rng\<rparr> of
        (Inl e, rng') \<Rightarrow> (Inl e, rng')
      | (Inr acc, rng') \<Rightarrow>
          ((case accRecordCommitment acc of
              Point cd \<Rightarrow>
                (case xy E cd of
                   Inl e \<Rightarrow> Inl e
                 | Inr cdXY \<Rightarrow>
                     Inr \<lparr>recordCommitment = cd,
                          fieldCommitments = accFieldCommitments acc,
                          record_math = \<lparr>totalM = serializeBN (accTotalM acc),
                                         totalR = serializeBN (accTotalR acc),
                                         C_D = cdXY,
                                         fieldCount = length entries\<rparr>\<rparr>)
            | _ \<Rightarrow> Inl TypeError),
           rng'))"

record 'p subsetResult =
  subsetCommitment :: "'p jsPoint"
  included :: "string list"

text \<open>
  \<^verbatim>\<open>computeSubsetCommitment(fieldCommitments, fieldNames)\<close>. The test
  \<^verbatim>\<open>if (fieldCommitments[name])\<close> also passes for a truthy inherited member, whose
  \<^verbatim>\<open>commitment\<close> property is \<^verbatim>\<open>undefined\<close>.
\<close>

fun computeSubsetLoop ::
  "'p::ab_group_add fcObject \<Rightarrow> string list \<Rightarrow> 'p subsetResult \<Rightarrow> error + 'p subsetResult" where
  "computeSubsetLoop fcs [] acc = Inr acc"
| "computeSubsetLoop fcs (name # names) acc =
     (case getFC fcs name of
        Absent \<Rightarrow> computeSubsetLoop fcs names acc
      | Inherited truthy \<Rightarrow>
          (if truthy
           then (case addTo (subsetCommitment acc) Undefined of
                   Inl e \<Rightarrow> Inl e
                 | Inr c \<Rightarrow>
                     computeSubsetLoop fcs names
                       \<lparr>subsetCommitment = c, included = included acc @ [name]\<rparr>)
           else computeSubsetLoop fcs names acc)
      | Own fc \<Rightarrow>
          (case addTo (subsetCommitment acc) (Point (fcCommitment fc)) of
             Inl e \<Rightarrow> Inl e
           | Inr c \<Rightarrow>
               computeSubsetLoop fcs names
                 \<lparr>subsetCommitment = c, included = included acc @ [name]\<rparr>))"

definition computeSubsetCommitment ::
  "'p::ab_group_add fcObject \<Rightarrow> string list \<Rightarrow> error + 'p subsetResult" where
  "computeSubsetCommitment fcs fieldNames =
     computeSubsetLoop fcs fieldNames \<lparr>subsetCommitment = Null, included = []\<rparr>"

record verifyMath =
  vm_C_D :: pointXY
  vm_C_H :: pointXY
  vm_C_F :: pointXY
  vm_sum :: pointXY

record verifyResult =
  valid :: bool
  verify_math :: verifyMath

text \<open>
  \<^verbatim>\<open>verifyPartition(C_D, C_H, C_F)\<close>: the sum, then \<^verbatim>\<open>C_D.eq(sum)\<close>, which reads a
  field of its argument, then the coordinates of \<open>C_D\<close>, \<open>C_H\<close>, \<open>C_F\<close> and of the sum.
\<close>

definition verifyPartition ::
  "'p::ab_group_add ext \<Rightarrow> 'p jsPoint \<Rightarrow> 'p jsPoint \<Rightarrow> 'p jsPoint \<Rightarrow> error + verifyResult" where
  "verifyPartition E cD cH cF =
     (case pointAdd cH cF of
        Inl e \<Rightarrow> Inl e
      | Inr sumP \<Rightarrow>
          (case (cD, sumP, cH, cF) of
             (Point d, Point t, Point h, Point f) \<Rightarrow>
               (case xy E d of
                  Inl e \<Rightarrow> Inl e
                | Inr dXY \<Rightarrow>
                    (case xy E h of
                       Inl e \<Rightarrow> Inl e
                     | Inr hXY \<Rightarrow>
                         (case xy E f of
                            Inl e \<Rightarrow> Inl e
                          | Inr fXY \<Rightarrow>
                              (case xy E t of
                                 Inl e \<Rightarrow> Inl e
                               | Inr tXY \<Rightarrow>
                                   Inr \<lparr>valid = (d = t),
                                        verify_math = \<lparr>vm_C_D = dXY, vm_C_H = hXY,
                                                       vm_C_F = fXY, vm_sum = tXY\<rparr>\<rparr>))))
           | _ \<Rightarrow> Inl TypeError))"

record fieldOpening =
  o_fieldName :: string
  o_value :: string
  o_randomness :: string

record detail =
  d_field :: string
  d_m :: string
  d_r :: string
  d_C :: string

record 'p recomputeResult =
  recomputed :: "'p jsPoint"
  details :: "detail list"

text \<open>
  \<^verbatim>\<open>recomputeCommitment(fields)\<close>. Each round parses the blinding factor, computes the
  point and reads its first coordinate for the \<^verbatim>\<open>details\<close>.
\<close>

fun recomputeLoop ::
  "'p::ab_group_add ext \<Rightarrow> fieldOpening list \<Rightarrow> 'p recomputeResult \<Rightarrow>
   error + 'p recomputeResult" where
  "recomputeLoop E [] acc = Inr acc"
| "recomputeLoop E (f # entries) acc =
     (case deserializeBN E (o_randomness f) of
        Inl e \<Rightarrow> Inl e
      | Inr r \<Rightarrow>
          (let m = hashToScalar E (commitMessage (o_fieldName f) (o_value f));
               gm = pointMul (ec_g E) m;
               hr = pointMul (ec_h E) r;
               C = gm + hr
           in case coordText (getX E) C of
                Inl e \<Rightarrow> Inl e
              | Inr cx \<Rightarrow>
                  (case addTo (recomputed acc) (Point C) of
                     Inl e \<Rightarrow> Inl e
                   | Inr c \<Rightarrow>
                       recomputeLoop E entries
                         \<lparr>recomputed = c,
                          details = details acc @
                            [\<lparr>d_field = o_fieldName f,
                              d_m = take 16 (toString16 m) @ ''...'',
                              d_r = take 16 (o_randomness f) @ ''...'',
                              d_C = take 16 cx @ ''...''\<rparr>]\<rparr>)))"

definition recomputeCommitment ::
  "'p::ab_group_add ext \<Rightarrow> fieldOpening list \<Rightarrow> error + 'p recomputeResult" where
  "recomputeCommitment E entries = recomputeLoop E entries \<lparr>recomputed = Null, details = []\<rparr>"

section \<open>The server (server.js)\<close>

text \<open>
  Strings are lists of 8-bit characters. The database \<^verbatim>\<open>citizenDB\<close>, the catalog
  \<^verbatim>\<open>POLICIES\<close> and a citizen's record are object literals: a map (or, where the order of
  the keys is observable, an association list) of their own properties, read through
  \<open>memberGet\<close>. The token store is a \<^verbatim>\<open>Map\<close>, which has no inherited keys. The request's
  \<^verbatim>\<open>expiresIn\<close> is a number of seconds that \<^verbatim>\<open>jwt.sign\<close> and \<^verbatim>\<open>Date\<close> accept.
\<close>

record policyEntry =
  p_name :: string
  p_description :: string
  visibleFields :: "string list"
  hiddenFields :: "string list"
  allowedActions :: "string list"

definition citizenDB :: "string \<rightharpoonup> (string \<times> string) list" where
  "citizenDB =
     [''citizen-001'' \<mapsto>
        [(''name'', ''Ahmed Ali Mohammed''),
         (''nationalId'', ''1087654321''),
         (''dateOfBirth'', ''1965-03-15''),
         (''address'', ''King Fahd Road, Riyadh 12345''),
         (''phone'', ''+966501234567''),
         (''email'', ''ahmed@email.com''),
         (''taxRecords'', ''Annual Income: 180,000 SAR | Tax Paid: 4,500 SAR''),
         (''bankAccount'', ''SA4420000001234567891234''),
         (''medicalHistory'', ''Blood Type: O+ | Allergies: None | Conditions: Hypertension''),
         (''propertyRecords'', ''Villa in Riyadh (2.1M SAR) | Land in Jeddah (800K SAR)'')]]"

text \<open>The catalog \<^verbatim>\<open>POLICIES\<close> as the module defines it at start-up.\<close>

definition POLICIES :: "string \<rightharpoonup> policyEntry" where
  "POLICIES =
     [''id-renewal'' \<mapsto>
        \<lparr>p_name = ''National ID Renewal'',
         p_description = ''Access to basic identity information for ID renewal'',
         visibleFields = [''name'', ''nationalId'', ''dateOfBirth'', ''address''],
         hiddenFields = [''phone'', ''email'', ''taxRecords'', ''bankAccount'',
                         ''medicalHistory'', ''propertyRecords''],
         allowedActions = [''view_id_info'', ''submit_renewal_application'', ''upload_photo'']\<rparr>,
      ''tax-filing'' \<mapsto>
        \<lparr>p_name = ''Tax Filing Assistance'',
         p_description = ''Access to financial information for tax preparation'',
         visibleFields = [''name'', ''nationalId'', ''taxRecords'', ''bankAccount''],
         hiddenFields = [''dateOfBirth'', ''address'', ''phone'', ''email'',
                         ''medicalHistory'', ''propertyRecords''],
         allowedActions = [''view_tax_info'', ''submit_tax_return'', ''download_tax_certificate'']\<rparr>,
      ''medical-proxy'' \<mapsto>
        \<lparr>p_name = ''Medical Appointment'',
         p_description = ''Access to medical information for healthcare proxy'',
         visibleFields = [''name'', ''nationalId'', ''dateOfBirth'', ''medicalHistory''],
         hiddenFields = [''address'', ''phone'', ''email'', ''taxRecords'',
                         ''bankAccount'', ''propertyRecords''],
         allowedActions = [''view_medical_info'', ''book_appointment'', ''view_prescriptions'']\<rparr>]"

text \<open>
  The mutable state of the process: the token store, the policy catalog (its entries are
  objects that \<^verbatim>\<open>sort()\<close> changes in place) and the random source. A stored token does
  not copy its policy: \<^verbatim>\<open>stored.policy\<close> is a reference to what the look-up in the
  catalog found, which the model writes as the key of that look-up, so that a change of
  the catalog entry is seen through every token that refers to it.
\<close>

record 'p storedToken =
  st_citizenId :: string
  st_policyId :: string
  st_record :: "(string \<times> string) list"
  st_policy :: string
  st_fieldCommitments :: "'p fcObject"
  st_recordCommitment :: 'p
  createdAt :: nat

record 'p server =
  tokenStore :: "string \<rightharpoonup> 'p storedToken"
  catalog :: "string \<rightharpoonup> policyEntry"
  rngCounter :: nat

datatype failure =
  CitizenNotFound | InvalidPolicy | InvalidToken | TokenDataNotFound | InternalError error

fun statusCode :: "failure \<Rightarrow> nat" where
  "statusCode CitizenNotFound = 404"
| "statusCode InvalidPolicy = 400"
| "statusCode InvalidToken = 401"
| "statusCode TokenDataNotFound = 404"
| "statusCode (InternalError e) = 500"

datatype 'a response = Success 'a | Failure failure

subsection \<open>The policy hash\<close>

text \<open>
  \<^verbatim>\<open>JSON.stringify\<close> of a string: quotes and backslashes are escaped, a control
  character is written by its short escape or as \<^verbatim>\<open>\u00XX\<close>.
\<close>

definition jsonChar :: "char \<Rightarrow> string" where
  "jsonChar c =
     (if c = CHR 0x22 then [CHR 0x5C, CHR 0x22]
      else if c = CHR 0x5C then [CHR 0x5C, CHR 0x5C]
      else if c = CHR 0x08 then [CHR 0x5C, CHR ''b'']
      else if c = CHR 0x09 then [CHR 0x5C, CHR ''t'']
      else if c = CHR 0x0A then [CHR 0x5C, CHR ''n'']
      else if c = CHR 0x0C then [CHR 0x5C, CHR ''f'']
      else if c = CHR 0x0D then [CHR 0x5C, CHR ''r'']
      else if (of_char c :: nat) < 32
        then [CHR 0x5C, CHR ''u''] @ padStart 4 CHR ''0'' (toString16 (of_char c))
      else [c])"

definition jsonString :: "string \<Rightarrow> string" where
  "jsonString s = [CHR 0x22] @ concat (map jsonChar s) @ [CHR 0x22]"

fun joinWith :: "string \<Rightarrow> string list \<Rightarrow> string" where
  "joinWith sep [] = []"
| "joinWith sep [s] = s"
| "joinWith sep (s # t # ss) = s @ sep @ joinWith sep (t # ss)"

definition jsonArray :: "string list \<Rightarrow> string" where
  "jsonArray ss = ''['' @ joinWith '','' (map jsonString ss) @ '']''"

text \<open>
  \<^verbatim>\<open>JSON.stringify({visible: ..., hidden: ...})\<close> of two arrays of strings, and the
  digest of it.
\<close>

definition policyJSON :: "string list \<Rightarrow> string list \<Rightarrow> string" where
  "policyJSON visible hidden =
     ''{'' @ jsonString ''visible'' @ '':'' @ jsonArray visible @ '','' @
     jsonString ''hidden'' @ '':'' @ jsonArray hidden @ ''}''"

definition computePolicyHash :: "'p ext \<Rightarrow> string list \<Rightarrow> string list \<Rightarrow> string" where
  "computePolicyHash E visible hidden = sha256hex E (policyJSON visible hidden)"

subsection \<open>Issue: POST /api/token/create\<close>

record createRequest =
  citizenId :: string
  policyId :: string
  expiresIn :: "nat option"

record createResponse =
  tokenId :: string
  token :: string
  expiresAt :: nat
  cr_recordCommitment :: serializedPoint
  cr_policyHash :: string
  cr_math :: recordMath
  cr_policyName :: string
  cr_visibleFields :: "string list"
  cr_hiddenFields :: "string list"
  cr_allowedActions :: "string list"

text \<open>
  The handler, in the order of the source. The two look-ups also find inherited members,
  which are truthy: an inherited member in the place of the record has no entries, so
  that \<^verbatim>\<open>commitRecord\<close> throws; one in the place of the policy has no
  \<^verbatim>\<open>visibleFields\<close>, so that \<^verbatim>\<open>sort()\<close> throws, after the token was stored. Then come
  the token id, the record commitment, the store, the policy hash, whose two
  \<^verbatim>\<open>sort()\<close> calls write the sorted arrays back into the catalog's object, the token and
  the answer. Every exception is caught and answered with status 500, after the random
  source was used. The answer's \<^verbatim>\<open>delegationUrl\<close> and its table of per-field display
  data are left out (the points serialized for that table are those whose coordinates
  \<^verbatim>\<open>commitField\<close> has read already); \<open>now\<close> is \<^verbatim>\<open>Date.now()\<close>, and \<open>expiresAt\<close> is kept
  as a number of milliseconds.
\<close>

definition tokenCreate ::
  "'p::ab_group_add ext \<Rightarrow> nat \<Rightarrow> 'p server \<Rightarrow> createRequest \<Rightarrow> 'p server \<times> createResponse response" where
  "tokenCreate E now s req =
     (let ttl = (case expiresIn req of None \<Rightarrow> 3600 | Some t \<Rightarrow> t) in
      case memberGet citizenDB (citizenId req) of
        Absent \<Rightarrow> (s, Failure CitizenNotFound)
      | recordFound \<Rightarrow>
          (case memberGet (catalog s) (policyId req) of
             Absent \<Rightarrow> (s, Failure InvalidPolicy)
           | policyFound \<Rightarrow>
               (let tid = padStart 32 CHR ''0'' (toString16 (randomBytes E (rngCounter s) 16 mod 256 ^ 16));
                    rec = (case recordFound of Own entries \<Rightarrow> entries | _ \<Rightarrow> []);
                    (cr, rng') = commitRecord E (Suc (rngCounter s)) rec
                in case cr of
                     Inl e \<Rightarrow> (s\<lparr>rngCounter := rng'\<rparr>, Failure (InternalError e))
                   | Inr commitmentResult \<Rightarrow>
                       (let stored = \<lparr>st_citizenId = citizenId req,
                                      st_policyId = policyId req,
                                      st_record = rec,
                                      st_policy = policyId req,
                                      st_fieldCommitments = fieldCommitments commitmentResult,
                                      st_recordCommitment = recordCommitment commitmentResult,
                                      createdAt = now\<rparr>;
                            store' = (tokenStore s)(tid \<mapsto> stored)
                        in case policyFound of
                             Own pol \<Rightarrow>
                               (let pol' = pol\<lparr>visibleFields := sort (visibleFields pol),
                                               hiddenFields := sort (hiddenFields pol)\<rparr>;
                                    pHash = computePolicyHash E (visibleFields pol') (hiddenFields pol');
                                    s' = \<lparr>tokenStore = store',
                                          catalog = (catalog s)(policyId req \<mapsto> pol'),
                                          rngCounter = rng'\<rparr>
                                in case serializePoint E (Point (recordCommitment commitmentResult)) of
                                     Inl e \<Rightarrow> (s', Failure (InternalError e))
                                   | Inr point \<Rightarrow>
                                       (s',
                                        Success \<lparr>tokenId = tid,
                                          token = jwtSign E
                                            \<lparr>jti = tid,
                                             sub = take 16 (sha256hex E (citizenId req)),
                                             policy = policyId req,
                                             policyHash = take 32 pHash,
                                             commitment = compressed point,
                                             actions = allowedActions pol'\<rparr> ttl,
                                          expiresAt = now + ttl * 1000,
                                          cr_recordCommitment = point,
                                          cr_policyHash = pHash,
                                          cr_math = record_math commitmentResult,
                                          cr_policyName = p_name pol',
                                          cr_visibleFields = visibleFields pol',
                                          cr_hiddenFields = hiddenFields pol',
                                          cr_allowedActions = allowedActions pol'\<rparr>))
                           | _ \<Rightarrow>
                               (\<lparr>tokenStore = store', catalog = catalog s, rngCounter = rng'\<rparr>,
                                Failure (InternalError TypeError))))))"

subsection \<open>Dispense: GET /api/delegate/:token\<close>

record partitionProof =
  pr_recordCommitment :: serializedPoint
  pr_hiddenCommitment :: serializedPoint
  pr_visibleCommitment :: serializedPoint
  pr_visibleFields :: "fieldOpening list"
  hiddenFieldCount :: nat
  verification :: verifyMath

record dispenseData =
  filteredRecord :: "(string \<times> string) list"
  dd_allowedActions :: "string list"
  dd_proof :: partitionProof
  dd_policyName :: string
  dd_policyHash :: string

text \<open>
  The loop over \<^verbatim>\<open>policy.visibleFields\<close>: a field for which \<^verbatim>\<open>record[field]\<close> is not
  \<^verbatim>\<open>undefined\<close> is copied into \<^verbatim>\<open>filteredData\<close> and opened. Reading
  \<^verbatim>\<open>fieldCommitments[field].randomness\<close> gives \<^verbatim>\<open>undefined\<close> unless the look-up finds a
  field commitment, and \<^verbatim>\<open>serializeBN(undefined)\<close> is a \<^verbatim>\<open>TypeError\<close>. The stored
  commitments are those of the record's own fields, so where \<^verbatim>\<open>record[field]\<close> is an
  inherited member the look-up in \<^verbatim>\<open>fieldCommitments\<close> finds no field commitment either.
  The assignment \<^verbatim>\<open>filteredData['__proto__'] = v\<close> of a string creates no property.
  \<^verbatim>\<open>filteredData\<close> is kept as the list of its properties in the order of their
  creation (JavaScript enumerates keys that are array indices before the others).
\<close>

fun filterLoop ::
  "(string \<times> string) list \<Rightarrow> 'p fcObject \<Rightarrow> string list \<Rightarrow>
   (string \<times> string) list \<times> fieldOpening list \<Rightarrow>
   error + (string \<times> string) list \<times> fieldOpening list" where
  "filterLoop rec fcs [] acc = Inr acc"
| "filterLoop rec fcs (field # rest) (filteredData, visibleFieldsProof) =
     (case memberGet (map_of rec) field of
        Absent \<Rightarrow> filterLoop rec fcs rest (filteredData, visibleFieldsProof)
      | Inherited t \<Rightarrow> Inl TypeError
      | Own v \<Rightarrow>
          (case getFC fcs field of
             Own fc \<Rightarrow>
               filterLoop rec fcs rest
                 (if field = ''__proto__'' then filteredData
                  else AList.update field v filteredData,
                  visibleFieldsProof @
                    [\<lparr>o_fieldName = field, o_value = v,
                      o_randomness = serializeBN (randomness fc)\<rparr>])
           | _ \<Rightarrow> Inl TypeError))"

text \<open>
  The handler. Every exception is caught and answered with status 500. The policy is
  read through the stored reference; when that is not an entry of the catalog (an
  inherited member, stored by an Issue that failed afterwards), iterating its
  \<^verbatim>\<open>visibleFields\<close> is a \<^verbatim>\<open>TypeError\<close>.
\<close>

definition dispense ::
  "'p::ab_group_add ext \<Rightarrow> 'p server \<Rightarrow> string \<Rightarrow> dispenseData response" where
  "dispense E s tok =
     (case jwtVerify E tok of
        None \<Rightarrow> Failure InvalidToken
      | Some payload \<Rightarrow>
          (case tokenStore s (jti payload) of
             None \<Rightarrow> Failure TokenDataNotFound
           | Some stored \<Rightarrow>
               (case memberGet (catalog s) (st_policy stored) of
                  Own pol \<Rightarrow>
                    (let rec = st_record stored;
                         fcs = st_fieldCommitments stored;
                         cD = Point (st_recordCommitment stored)
                     in case filterLoop rec fcs (visibleFields pol) ([], []) of
                          Inl e \<Rightarrow> Failure (InternalError e)
                        | Inr (filteredData, visibleFieldsProof) \<Rightarrow>
                            (let hiddenFieldNames =
                                   filter (\<lambda>f. memberGet (map_of rec) f \<noteq> Absent) (hiddenFields pol)
                             in case computeSubsetCommitment fcs hiddenFieldNames of
                                  Inl e \<Rightarrow> Failure (InternalError e)
                                | Inr hiddenResult \<Rightarrow>
                                    (case computeSubsetCommitment fcs
                                            (filter (\<lambda>f. memberGet (map_of rec) f \<noteq> Absent)
                                               (visibleFields pol)) of
                                       Inl e \<Rightarrow> Failure (InternalError e)
                                     | Inr visibleResult \<Rightarrow>
                                         (let hiddenCommitment = subsetCommitment hiddenResult;
                                              visibleCommitment = subsetCommitment visibleResult
                                          in case verifyPartition E cD hiddenCommitment visibleCommitment of
                                               Inl e \<Rightarrow> Failure (InternalError e)
                                             | Inr verif \<Rightarrow>
                                                 (case (serializePoint E cD,
                                                        serializePoint E hiddenCommitment,
                                                        serializePoint E visibleCommitment) of
                                                    (Inr sD, Inr sH, Inr sF) \<Rightarrow>
                                                      Success
                                                        \<lparr>filteredRecord = filteredData,
                                                         dd_allowedActions = allowedActions pol,
                                                         dd_proof =
                                                           \<lparr>pr_recordCommitment = sD,
                                                            pr_hiddenCommitment = sH,
                                                            pr_visibleCommitment = sF,
                                                            pr_visibleFields = visibleFieldsProof,
                                                            hiddenFieldCount = length hiddenFieldNames,
                                                            verification = verify_math verif\<rparr>,
                                                         dd_policyName = p_name pol,
                                                         dd_policyHash = policyHash payload\<rparr>
                                                  | _ \<Rightarrow> Failure (InternalError TypeError))))))
                | _ \<Rightarrow> Failure (InternalError TypeError))))"

section \<open>Running the model\<close>

text \<open>
  The requests that change the state are the Issue requests; \<open>issueAll\<close> serves a
  sequence of them, each at its own time.
\<close>

fun issueAll ::
  "'p::ab_group_add ext \<Rightarrow> 'p server \<Rightarrow> (nat \<times> createRequest) list \<Rightarrow> 'p server" where
  "issueAll E s [] = s"
| "issueAll E s ((now, req) # reqs) = issueAll E (fst (tokenCreate E now s req)) reqs"

definition initialServer :: "'p server" where
  "initialServer = \<lparr>tokenStore = Map.empty, catalog = POLICIES, rngCounter = 0\<rparr>"

fun isSuccess :: "'a response \<Rightarrow> bool" where
  "isSuccess (Success a) = True"
| "isSuccess (Failure f) = False"

fun successData :: "'a response \<Rightarrow> 'a option" where
  "successData (Success a) = Some a"
| "successData (Failure f) = None"

text \<open>What the two \<^verbatim>\<open>sort()\<close> calls of Issue make of a catalog entry.\<close>

definition sortFields :: "policyEntry \<Rightarrow> policyEntry" where
  "sortFields pol = pol\<lparr>visibleFields := sort (visibleFields pol),
                         hiddenFields := sort (hiddenFields pol)\<rparr>"

text \<open>
  A request for the one citizen of the database, and a server whose catalog has, beside
  the three policies of the source, a policy that names two of the record's ten fields.
\<close>

definition demoRequest :: "string \<Rightarrow> createRequest" where
  "demoRequest pid = \<lparr>citizenId = ''citizen-001'', policyId = pid, expiresIn = None\<rparr>"

definition partialServer :: "'p server" where
  "partialServer =
     \<lparr>tokenStore = Map.empty,
      catalog = POLICIES(''name-only'' \<mapsto>
        \<lparr>p_name = ''Name only'',
         p_description = ''Leaves eight fields of the record out'',
         visibleFields = [''name''],
         hiddenFields = [''phone''],
         allowedActions = [''view_name'']\<rparr>),
      rngCounter = 0\<rparr>"

text \<open>
  A stand-in for the libraries, on which the model runs on concrete inputs: the group is
  the integers with generator 1, the digest of a text is its length, the \<open>i\<close>-th random
  draw is \<open>7 * i + 3\<close>, the big-number constructor throws on a text that is not
  hexadecimal, and a token is the token id itself.
\<close>

definition testExt :: "int ext" where
  "testExt =
     \<lparr>ec_g = 1,
      getX = (\<lambda>P. nat \<bar>P\<bar>),
      getY = (\<lambda>P. nat \<bar>P\<bar> + 1),
      encodeCompressed = (\<lambda>P. toString16 (nat \<bar>P\<bar>)),
      sha256 = length,
      randomBytes = (\<lambda>i len. 7 * i + 3),
      bnOtherText = (\<lambda>s. None),
      jwtSign = (\<lambda>payload ttl. jti payload),
      jwtVerify = (\<lambda>tok. if tok = [] then None
                          else Some \<lparr>jti = tok, sub = [], policy = [], policyHash = [],
                                     commitment = [], actions = []\<rparr>)\<rparr>"

section \<open>Sums computed by the loops\<close>

text \<open>
  The three loops of the engine add points to an accumulator that starts as \<^verbatim>\<open>null\<close>.
  \<open>accumulate\<close> is that pattern for an accumulator that is \<^verbatim>\<open>null\<close> or a point;
  \<open>commitmentOf\<close> and \<open>randomnessOf\<close> read a stored field commitment, and
  \<open>openingPoint\<close> is the point that \<^verbatim>\<open>recomputeCommitment\<close> computes for an opening
  whose blinding factor is hexadecimal text.
\<close>

fun accumulate :: "'p::ab_group_add jsPoint \<Rightarrow> 'p list \<Rightarrow> 'p jsPoint" where
  "accumulate a [] = a"
| "accumulate a (c # cs) = accumulate (Point (case a of Point s \<Rightarrow> s + c | _ \<Rightarrow> c)) cs"

definition commitmentOf :: "'p::zero fcObject \<Rightarrow> string \<Rightarrow> 'p" where
  "commitmentOf fcs n = (case getFC fcs n of Own fc \<Rightarrow> fcCommitment fc | _ \<Rightarrow> 0)"

definition randomnessOf :: "'p fcObject \<Rightarrow> string \<Rightarrow> nat" where
  "randomnessOf fcs n = (case getFC fcs n of Own fc \<Rightarrow> randomness fc | _ \<Rightarrow> 0)"

definition openingPoint :: "'p::ab_group_add ext \<Rightarrow> fieldOpening \<Rightarrow> 'p" where
  "openingPoint E f =
     pointMul (ec_g E) (hashToScalar E (commitMessage (o_fieldName f) (o_value f))) +
     pointMul (ec_h E) (hexNumber (o_randomness f))"

text \<open>
  The opening that the loop of Dispense emits for a field \<open>n\<close> of the record.
\<close>

definition honestOpening :: "(string \<times> string) list \<Rightarrow> 'p fcObject \<Rightarrow> string \<Rightarrow> fieldOpening" where
  "honestOpening rec fcs n =
     \<lparr>o_fieldName = n, o_value = the (map_of rec n),
      o_randomness = serializeBN (randomnessOf fcs n)\<rparr>"

text \<open>The accumulator with which the loop of \<^verbatim>\<open>commitRecord\<close> starts.\<close>

definition initialAcc :: "nat \<Rightarrow> 'p commitAcc" where
  "initialAcc rng = \<lparr>accFieldCommitments = emptyObject, accTotalM = 0, accTotalR = 0,
                    accRecordCommitment = Null, accRng = rng\<rparr>"

text \<open>
  On the stand-in library the commitment of the field \<open>(n, v)\<close> made with the \<open>i\<close>-th
  draw is \<open>fieldPoint i n v\<close>, and the commitments of the fields of a record, the first
  made with the \<open>i\<close>-th draw, are \<open>expectedPoints i R\<close>.
\<close>

definition fieldPoint :: "nat \<Rightarrow> string \<Rightarrow> string \<Rightarrow> int" where
  "fieldPoint i n v = int (length (commitMessage n v)) + 24 * int (7 * i + 3)"

fun expectedPoints :: "nat \<Rightarrow> (string \<times> string) list \<Rightarrow> int list" where
  "expectedPoints i [] = []"
| "expectedPoints i ((n, v) # R) = fieldPoint i n v # expectedPoints (Suc i) R"

subsection \<open>Hexadecimal round trip\<close>

lemma hexDigit_cases:
  fixes d :: nat
  assumes "d < 16"
  shows "d \<in> {0,1,2,3,4,5,6,7,8,9,10,11,12,13,14,15}"
  using assms by simp arith

lemma hexValue_hexDigit: "d < 16 \<Longrightarrow> hexValue (hexDigit d) = d"
  by (drule hexDigit_cases, elim insertE emptyE) (simp_all add: hexValue_def hexDigit_def)

lemma isHexDigit_hexDigit: "d < 16 \<Longrightarrow> isHexDigit (hexDigit d)"
  by (drule hexDigit_cases, elim insertE emptyE) (simp_all add: isHexDigit_def hexDigit_def)

lemma hexNumber_snoc: "hexNumber (s @ [c]) = hexNumber s * 16 + hexValue c"
  by (simp add: hexNumber_def)

lemma hexNumber_toString16: "hexNumber (toString16 n) = n"
proof (induction n rule: toString16.induct)
  case (1 n)
  show ?case
  proof (cases "n < 16")
    case True
    then show ?thesis
      by (subst toString16.simps) (simp add: hexNumber_def hexValue_hexDigit)
  next
    case False
    with 1 have "hexNumber (toString16 (n div 16)) = n div 16" by simp
    with False show ?thesis
      by (subst toString16.simps) (simp add: hexNumber_snoc hexValue_hexDigit)
  qed
qed

lemma toString16_hex: "list_all isHexDigit (toString16 n)"
proof (induction n rule: toString16.induct)
  case (1 n)
  show ?case
  proof (cases "n < 16")
    case True
    then show ?thesis
      by (subst toString16.simps) (simp add: isHexDigit_hexDigit)
  next
    case False
    with 1 have "list_all isHexDigit (toString16 (n div 16))" by simp
    with False show ?thesis
      by (subst toString16.simps) (simp add: isHexDigit_hexDigit)
  qed
qed

lemma foldl_hex_zeros:
  "foldl (\<lambda>acc c. acc * 16 + hexValue c) 0 (replicate k CHR ''0'' @ s) =
   foldl (\<lambda>acc c. acc * 16 + hexValue c) 0 s"
  by (induction k) (simp_all add: hexValue_def)

lemma hexNumber_padStart: "hexNumber (padStart k CHR ''0'' s) = hexNumber s"
  by (simp add: hexNumber_def padStart_def foldl_hex_zeros del: foldl_append)

lemma padStart_hex: "list_all isHexDigit s \<Longrightarrow> list_all isHexDigit (padStart k CHR ''0'' s)"
  by (auto simp: padStart_def list_all_iff isHexDigit_def)

lemma hexNumber_serializeBN: "hexNumber (serializeBN n) = n"
  by (simp add: serializeBN_def hexNumber_padStart hexNumber_toString16)

lemma serializeBN_hex: "list_all isHexDigit (serializeBN n)"
  by (simp add: serializeBN_def padStart_hex toString16_hex)

lemma deserializeBN_serializeBN: "deserializeBN E (serializeBN n) = Inr n"
  by (simp add: deserializeBN_def serializeBN_hex hexNumber_serializeBN)

lemma hashToScalar_digest: "hashToScalar E data = sha256 E data mod 2 ^ 256 mod ec_n"
  by (simp add: hashToScalar_def sha256hex_def hexNumber_padStart hexNumber_toString16)

subsection \<open>Accumulators\<close>

lemma addTo_Null: "addTo Null v = Inr v"
  by (simp add: addTo_def)

lemma addTo_Point: "addTo (Point s) (Point c) = Inr (Point (s + c))"
  by (simp add: addTo_def pointAdd_def)

lemma addTo_step:
  "a \<noteq> Undefined \<Longrightarrow>
   addTo a (Point c) = Inr (Point (case a of Point s \<Rightarrow> s + c | _ \<Rightarrow> c))"
  by (cases a) (simp_all add: addTo_Null addTo_Point)

lemma accumulate_Point: "accumulate (Point s) cs = Point (s + sum_list cs)"
  by (induction cs arbitrary: s) (simp_all add: add.assoc)

lemma accumulate_Null: "accumulate Null cs = (if cs = [] then Null else Point (sum_list cs))"
  by (cases cs) (simp_all add: accumulate_Point)

lemma xy_Inr: "P \<noteq> 0 \<Longrightarrow> \<exists>c. xy E P = Inr c"
  by (simp add: xy_def coordText_def)

lemma xy_zero: "xy E 0 = Inl TypeError"
  by (simp add: xy_def coordText_def)

lemma xy_InrD: "xy E P = Inr c \<Longrightarrow> P \<noteq> 0"
  by (auto simp: xy_def coordText_def split: if_splits)

lemma commitField_InrD:
  assumes "commitField E rng n v r = (Inr fc, rng')"
  shows "fcCommitment fc =
           pointMul (ec_g E) (hashToScalar E (commitMessage n v)) + pointMul (ec_h E) (randomness fc)"
    and "fcCommitment fc \<noteq> 0"
    and "randomness fc = (case r of Some r' \<Rightarrow> r' | None \<Rightarrow> fst (randomScalar E rng))"
    and "fieldName fc = n" and "fieldValue fc = v"
    and "math_message (math fc) = commitMessage n v"
    and "pointMul (ec_g E) (hashToScalar E (commitMessage n v)) \<noteq> 0"
    and "pointMul (ec_h E) (randomness fc) \<noteq> 0"
proof -
  obtain rand k where rk: "(case r of Some r' \<Rightarrow> (r', rng) | None \<Rightarrow> randomScalar E rng) = (rand, k)"
    by (cases "case r of Some r' \<Rightarrow> (r', rng) | None \<Rightarrow> randomScalar E rng")
  then have rand: "rand = (case r of Some r' \<Rightarrow> r' | None \<Rightarrow> fst (randomScalar E rng))"
    by (cases r) auto
  let ?gm = "pointMul (ec_g E) (hashToScalar E (commitMessage n v))"
  let ?hr = "pointMul (ec_h E) rand"
  from assms rk have "(case xy E ?gm of
             Inl e \<Rightarrow> Inl e
           | Inr gmXY \<Rightarrow>
               (case xy E ?hr of
                  Inl e \<Rightarrow> Inl e
                | Inr hrXY \<Rightarrow>
                    (case xy E (?gm + ?hr) of
                       Inl e \<Rightarrow> Inl e
                     | Inr cXY \<Rightarrow>
                         Inr \<lparr>fieldName = n, fieldValue = v, fcCommitment = ?gm + ?hr,
                              randomness = rand,
                              math = \<lparr>math_message = commitMessage n v,
                                       math_m = serializeBN (hashToScalar E (commitMessage n v)),
                                       math_r = serializeBN rand,
                                       math_gm = gmXY, math_hr = hrXY, math_C = cXY\<rparr>\<rparr>))) = Inr fc"
    by (simp add: commitField_def Let_def)
  then obtain a b c where a: "xy E ?gm = Inr a" and b: "xy E ?hr = Inr b" and c: "xy E (?gm + ?hr) = Inr c"
    and fc: "fc = \<lparr>fieldName = n, fieldValue = v, fcCommitment = ?gm + ?hr,
                              randomness = rand,
                              math = \<lparr>math_message = commitMessage n v,
                                       math_m = serializeBN (hashToScalar E (commitMessage n v)),
                                       math_r = serializeBN rand,
                                       math_gm = a, math_hr = b, math_C = c\<rparr>\<rparr>"
    by (auto split: sum.splits)
  note nz = xy_InrD [OF a] xy_InrD [OF b] xy_InrD [OF c]
  show "fcCommitment fc =
           pointMul (ec_g E) (hashToScalar E (commitMessage n v)) + pointMul (ec_h E) (randomness fc)"
    by (simp add: fc)
  show "fcCommitment fc \<noteq> 0" using nz(3) by (simp add: fc)
  show "randomness fc = (case r of Some r' \<Rightarrow> r' | None \<Rightarrow> fst (randomScalar E rng))"
    using rand by (simp add: fc)
  show "fieldName fc = n" "fieldValue fc = v" "math_message (math fc) = commitMessage n v"
    by (simp_all add: fc)
  show "pointMul (ec_g E) (hashToScalar E (commitMessage n v)) \<noteq> 0"
    using nz(1) by simp
  show "pointMul (ec_h E) (randomness fc) \<noteq> 0"
    using nz(2) by (simp add: fc)
qed

lemma commitField_rng:
  "snd (commitField E rng n v r) = (case r of Some r' \<Rightarrow> rng | None \<Rightarrow> Suc rng)"
  by (simp add: commitField_def Let_def randomScalar_def split: option.splits prod.splits)

lemma getFC_Own_iff:
  "getFC obj k = Own fc \<longleftrightarrow>
     ownProps obj k = Some fc \<or>
     (ownProps obj k = None \<and> k = ''__proto__'' \<and> protoObject obj = Some fc)"
proof (cases "ownProps obj k")
  case (Some a)
  then show ?thesis by (simp add: getFC_def)
next
  case None
  show ?thesis
  proof (cases "protoObject obj")
    case None
    with \<open>ownProps obj k = None\<close> show ?thesis by (simp add: getFC_def memberGet_def)
  next
    case (Some p)
    with \<open>ownProps obj k = None\<close> show ?thesis
      by (cases "k = ''__proto__''") (simp_all add: getFC_def memberGet_def)
  qed
qed

lemma getFC_setFC_same: "getFC (setFC obj k fc) k = Own fc"
  by (cases "k = ''__proto__'' \<and> ownProps obj k = None") (auto simp: getFC_Own_iff setFC_def)

lemma getFC_setFC_other:
  "k' \<noteq> k \<Longrightarrow> getFC obj k' = Own fc' \<Longrightarrow> getFC (setFC obj k fc) k' = Own fc'"
  by (auto simp: getFC_Own_iff setFC_def)

lemma getFC_setFC_Own:
  "getFC (setFC obj k fc) n = Own fc' \<Longrightarrow> fc' = fc \<or> getFC obj n = Own fc'"
  by (auto simp: getFC_Own_iff setFC_def split: if_splits)

lemma getFC_emptyObject:
  "getFC emptyObject n = (if n \<in> set objectPrototypeMembers then Inherited True else Absent)"
  by (simp add: getFC_def emptyObject_def memberGet_def)

subsection \<open>The loops\<close>

lemma subsetLoop_own:
  "\<forall>n \<in> set names. \<exists>fc. getFC fcs n = Own fc \<Longrightarrow> subsetCommitment acc \<noteq> Undefined \<Longrightarrow>
   computeSubsetLoop fcs names acc =
     Inr \<lparr>subsetCommitment = accumulate (subsetCommitment acc) (map (commitmentOf fcs) names),
          included = included acc @ names\<rparr>"
proof (induction names arbitrary: acc)
  case Nil
  then show ?case by (cases acc) simp
next
  case (Cons n names)
  from Cons.prems(1) obtain fc where fc: "getFC fcs n = Own fc" by auto
  let ?c = "Point (case subsetCommitment acc of Point s \<Rightarrow> s + fcCommitment fc | _ \<Rightarrow> fcCommitment fc)"
  let ?acc' = "\<lparr>subsetCommitment = ?c, included = included acc @ [n]\<rparr>"
  from addTo_step [OF Cons.prems(2)]
  have step: "addTo (subsetCommitment acc) (Point (fcCommitment fc)) = Inr ?c" .
  have hd: "commitmentOf fcs n = fcCommitment fc" by (simp add: commitmentOf_def fc)
  have eq1: "computeSubsetLoop fcs (n # names) acc = computeSubsetLoop fcs names ?acc'"
    by (simp add: fc step)
  have eq2: "computeSubsetLoop fcs names ?acc' =
      Inr \<lparr>subsetCommitment = accumulate ?c (map (commitmentOf fcs) names),
          included = (included acc @ [n]) @ names\<rparr>"
    using Cons.IH [of ?acc'] Cons.prems(1) by simp
  show ?case unfolding eq1 eq2 by (simp add: hd)
qed

lemma subset_of_own:
  assumes "\<forall>n \<in> set A. \<exists>fc. getFC fcs n = Own fc" and "A \<noteq> []"
  shows "computeSubsetCommitment fcs A =
           Inr \<lparr>subsetCommitment = Point (sum_list (map (commitmentOf fcs) A)), included = A\<rparr>"
  using subsetLoop_own [OF assms(1), of "\<lparr>subsetCommitment = Null, included = []\<rparr>"] assms(2)
  by (simp add: computeSubsetCommitment_def accumulate_Null)

lemma commitLoop_ConsD:
  assumes "commitRecordLoop E ((n, v) # R) acc = (Inr acc', k)"
  shows "\<exists>fc rng' c. commitField E (accRng acc) n v None = (Inr fc, rng') \<and>
           addTo (accRecordCommitment acc) (Point (fcCommitment fc)) = Inr c \<and>
           commitRecordLoop E R
             \<lparr>accFieldCommitments = setFC (accFieldCommitments acc) n fc,
              accTotalM = (accTotalM acc + hashToScalar E (commitMessage n v)) mod ec_n,
              accTotalR = (accTotalR acc + randomness fc) mod ec_n,
              accRecordCommitment = c,
              accRng = rng'\<rparr> = (Inr acc', k)"
  using assms by (auto split: prod.splits sum.splits)

lemma commitLoop_keep:
  "commitRecordLoop E R acc = (Inr acc', k) \<Longrightarrow> n \<notin> fst ` set R \<Longrightarrow>
   getFC (accFieldCommitments acc) n = Own fc \<Longrightarrow>
   getFC (accFieldCommitments acc') n = Own fc"
proof (induction R arbitrary: acc)
  case Nil
  then show ?case by simp
next
  case (Cons e R)
  obtain n' v' where e: "e = (n', v')" by (cases e)
  from Cons.prems(1) [unfolded e] commitLoop_ConsD
  obtain fc' rng' c where
    loop: "commitRecordLoop E R
             \<lparr>accFieldCommitments = setFC (accFieldCommitments acc) n' fc',
              accTotalM = (accTotalM acc + hashToScalar E (commitMessage n' v')) mod ec_n,
              accTotalR = (accTotalR acc + randomness fc') mod ec_n,
              accRecordCommitment = c,
              accRng = rng'\<rparr> = (Inr acc', k)"
    by blast
  from Cons.prems(2) e have "n \<noteq> n'" and "n \<notin> fst ` set R" by auto
  from getFC_setFC_other [OF this(1) Cons.prems(3)]
  have "getFC (setFC (accFieldCommitments acc) n' fc') n = Own fc" .
  with Cons.IH [OF loop \<open>n \<notin> fst ` set R\<close>] show ?case by simp
qed

lemma commitLoop_entry:
  "commitRecordLoop E R acc = (Inr acc', k) \<Longrightarrow> distinct (map fst R) \<Longrightarrow> (n, v) \<in> set R \<Longrightarrow>
   \<exists>fc. getFC (accFieldCommitments acc') n = Own fc \<and>
        fcCommitment fc = pointMul (ec_g E) (hashToScalar E (commitMessage n v)) +
                          pointMul (ec_h E) (randomness fc) \<and>
        fcCommitment fc \<noteq> 0"
proof (induction R arbitrary: acc)
  case Nil
  then show ?case by simp
next
  case (Cons e R)
  obtain n' v' where e: "e = (n', v')" by (cases e)
  from Cons.prems(1) [unfolded e] commitLoop_ConsD
  obtain fc' rng' c where
    cf: "commitField E (accRng acc) n' v' None = (Inr fc', rng')" and
    loop: "commitRecordLoop E R
             \<lparr>accFieldCommitments = setFC (accFieldCommitments acc) n' fc',
              accTotalM = (accTotalM acc + hashToScalar E (commitMessage n' v')) mod ec_n,
              accTotalR = (accTotalR acc + randomness fc') mod ec_n,
              accRecordCommitment = c,
              accRng = rng'\<rparr> = (Inr acc', k)"
    by blast
  from Cons.prems(2) have d: "distinct (map fst R)" by simp
  show ?case
  proof (cases "(n, v) \<in> set R")
    case True
    from Cons.IH [OF loop d True] show ?thesis .
  next
    case False
    with Cons.prems(3) e have nv: "n' = n" "v' = v" by auto
    from Cons.prems(2) e nv have notin: "n \<notin> fst ` set R" by auto
    have "getFC (setFC (accFieldCommitments acc) n fc') n = Own fc'"
      by (rule getFC_setFC_same)
    with commitLoop_keep [OF loop [unfolded nv] notin, of fc']
    have "getFC (accFieldCommitments acc') n = Own fc'" by simp
    with commitField_InrD(1,2) [OF cf [unfolded nv]] show ?thesis by blast
  qed
qed

lemma commitLoop_sum:
  "commitRecordLoop E R acc = (Inr acc', k) \<Longrightarrow> distinct (map fst R) \<Longrightarrow>
   accRecordCommitment acc \<noteq> Undefined \<Longrightarrow>
   accRecordCommitment acc' =
     accumulate (accRecordCommitment acc)
       (map (commitmentOf (accFieldCommitments acc')) (map fst R))"
proof (induction R arbitrary: acc)
  case Nil
  then show ?case by simp
next
  case (Cons e R)
  obtain n v where e: "e = (n, v)" by (cases e)
  from Cons.prems(1) [unfolded e] commitLoop_ConsD
  obtain fc rng' c where
    cf: "commitField E (accRng acc) n v None = (Inr fc, rng')" and
    add: "addTo (accRecordCommitment acc) (Point (fcCommitment fc)) = Inr c" and
    loop: "commitRecordLoop E R
             \<lparr>accFieldCommitments = setFC (accFieldCommitments acc) n fc,
              accTotalM = (accTotalM acc + hashToScalar E (commitMessage n v)) mod ec_n,
              accTotalR = (accTotalR acc + randomness fc) mod ec_n,
              accRecordCommitment = c,
              accRng = rng'\<rparr> = (Inr acc', k)"
    by blast
  from Cons.prems(2) e have notin: "n \<notin> fst ` set R" and d: "distinct (map fst R)" by auto
  from add addTo_step [OF Cons.prems(3), of "fcCommitment fc"]
  have c: "c = Point (case accRecordCommitment acc of Point s \<Rightarrow> s + fcCommitment fc
                       | _ \<Rightarrow> fcCommitment fc)"
    by simp
  have "getFC (setFC (accFieldCommitments acc) n fc) n = Own fc" by (rule getFC_setFC_same)
  with commitLoop_keep [OF loop notin, of fc]
  have "commitmentOf (accFieldCommitments acc') n = fcCommitment fc"
    by (simp add: commitmentOf_def)
  with Cons.IH [OF loop d] c show ?case by (simp add: e)
qed

lemma commitLoop_rng_Inr:
  "commitRecordLoop E R acc = (Inr acc', k) \<Longrightarrow> k = accRng acc + length R"
proof (induction R arbitrary: acc)
  case Nil
  then show ?case by auto
next
  case (Cons e R)
  obtain n v where e: "e = (n, v)" by (cases e)
  from Cons.prems(1) [unfolded e] commitLoop_ConsD
  obtain fc rng' c where
    cf: "commitField E (accRng acc) n v None = (Inr fc, rng')" and
    loop: "commitRecordLoop E R
             \<lparr>accFieldCommitments = setFC (accFieldCommitments acc) n fc,
              accTotalM = (accTotalM acc + hashToScalar E (commitMessage n v)) mod ec_n,
              accTotalR = (accTotalR acc + randomness fc) mod ec_n,
              accRecordCommitment = c,
              accRng = rng'\<rparr> = (Inr acc', k)"
    by blast
  from commitField_rng [of E "accRng acc" n v None] cf have "rng' = Suc (accRng acc)" by simp
  with Cons.IH [OF loop] show ?case by simp
qed

lemma commitRecord_InrD:
  assumes "commitRecord E rng R = (Inr cr, rng')"
  shows "\<exists>acc'. commitRecordLoop E R (initialAcc rng) = (Inr acc', rng') \<and>
           accRecordCommitment acc' = Point (recordCommitment cr) \<and>
           fieldCommitments cr = accFieldCommitments acc' \<and>
           recordCommitment cr \<noteq> 0"
  using assms
  by (auto simp: commitRecord_def initialAcc_def
      split: prod.splits sum.splits jsPoint.splits dest: xy_InrD)

lemma commitRecord_entries:
  assumes "commitRecord E rng R = (Inr cr, rng')" and "distinct (map fst R)" and "(n, v) \<in> set R"
  shows "\<exists>fc. getFC (fieldCommitments cr) n = Own fc \<and>
           fcCommitment fc = pointMul (ec_g E) (hashToScalar E (commitMessage n v)) +
                             pointMul (ec_h E) (randomness fc) \<and>
           fcCommitment fc \<noteq> 0"
proof -
  from commitRecord_InrD [OF assms(1)] obtain acc' where
    "commitRecordLoop E R (initialAcc rng) = (Inr acc', rng')"
    "fieldCommitments cr = accFieldCommitments acc'"
    by blast
  with commitLoop_entry [OF this(1) assms(2,3)] show ?thesis by simp
qed

lemma commitRecord_sum:
  assumes "commitRecord E rng R = (Inr cr, rng')" and "distinct (map fst R)"
  shows "recordCommitment cr = sum_list (map (commitmentOf (fieldCommitments cr)) (map fst R))"
    and "R \<noteq> []" and "recordCommitment cr \<noteq> 0" and "rng' = rng + length R"
proof -
  from commitRecord_InrD [OF assms(1)] obtain acc' where
    loop: "commitRecordLoop E R (initialAcc rng) = (Inr acc', rng')" and
    rc: "accRecordCommitment acc' = Point (recordCommitment cr)" and
    fc: "fieldCommitments cr = accFieldCommitments acc'" and
    nz: "recordCommitment cr \<noteq> 0"
    by blast
  from commitLoop_sum [OF loop assms(2)] rc fc
  have "Point (recordCommitment cr) =
          accumulate Null (map (commitmentOf (fieldCommitments cr)) (map fst R))"
    by (simp add: initialAcc_def)
  then show "recordCommitment cr = sum_list (map (commitmentOf (fieldCommitments cr)) (map fst R))"
    and "R \<noteq> []"
    by (auto simp: accumulate_Null split: if_splits)
  show "recordCommitment cr \<noteq> 0" by (rule nz)
  from commitLoop_rng_Inr [OF loop] show "rng' = rng + length R" by (simp add: initialAcc_def)
qed

lemma recomputeLoop_openings:
  "\<forall>f \<in> set fs. list_all isHexDigit (o_randomness f) \<and> openingPoint E f \<noteq> 0 \<Longrightarrow>
   recomputed acc \<noteq> Undefined \<Longrightarrow>
   \<exists>ds. recomputeLoop E fs acc =
          Inr \<lparr>recomputed = accumulate (recomputed acc) (map (openingPoint E) fs), details = ds\<rparr>"
proof (induction fs arbitrary: acc)
  case Nil
  then show ?case by (cases acc) simp
next
  case (Cons f fs)
  from Cons.prems(1) have hex: "list_all isHexDigit (o_randomness f)"
    and nz: "openingPoint E f \<noteq> 0" by simp_all
  let ?c = "Point (case recomputed acc of Point s \<Rightarrow> s + openingPoint E f | _ \<Rightarrow> openingPoint E f)"
  from addTo_step [OF Cons.prems(2)]
  have step: "addTo (recomputed acc) (Point (openingPoint E f)) = Inr ?c" .
  from hex have r: "deserializeBN E (o_randomness f) = Inr (hexNumber (o_randomness f))"
    by (simp add: deserializeBN_def)
  from nz have cx: "coordText (getX E) (openingPoint E f) = Inr (toString16 (getX E (openingPoint E f)))"
    by (simp add: coordText_def)
  let ?acc' = "\<lparr>recomputed = ?c,
                 details = details acc @
                   [\<lparr>d_field = o_fieldName f,
                     d_m = take 16 (toString16 (hashToScalar E (commitMessage (o_fieldName f) (o_value f)))) @ ''...'',
                     d_r = take 16 (o_randomness f) @ ''...'',
                     d_C = take 16 (toString16 (getX E (openingPoint E f))) @ ''...''\<rparr>]\<rparr>"
  have "recomputeLoop E (f # fs) acc = recomputeLoop E fs ?acc'"
    using cx step by (simp add: r Let_def openingPoint_def)
  moreover from Cons.IH [of ?acc'] Cons.prems(1)
  obtain ds where "recomputeLoop E fs ?acc' =
      Inr \<lparr>recomputed = accumulate ?c (map (openingPoint E) fs), details = ds\<rparr>"
    by auto
  ultimately show ?case by simp
qed

lemma recompute_openings:
  assumes "\<forall>f \<in> set fs. list_all isHexDigit (o_randomness f) \<and> openingPoint E f \<noteq> 0"
    and "fs \<noteq> []"
  shows "\<exists>ds. recomputeCommitment E fs =
           Inr \<lparr>recomputed = Point (sum_list (map (openingPoint E) fs)), details = ds\<rparr>"
  using recomputeLoop_openings [OF assms(1), of "\<lparr>recomputed = Null, details = []\<rparr>"] assms(2)
  by (simp add: recomputeCommitment_def accumulate_Null)

lemma verifyPartition_points:
  assumes "d \<noteq> 0" and "h \<noteq> 0" and "f \<noteq> 0" and "h + f \<noteq> 0"
  shows "\<exists>vm. verifyPartition E (Point d) (Point h) (Point f) =
           Inr \<lparr>valid = (d = h + f), verify_math = vm\<rparr>"
proof -
  from xy_Inr [OF assms(1), of E] obtain a where a: "xy E d = Inr a" ..
  from xy_Inr [OF assms(2), of E] obtain b where b: "xy E h = Inr b" ..
  from xy_Inr [OF assms(3), of E] obtain c where c: "xy E f = Inr c" ..
  from xy_Inr [OF assms(4), of E] obtain t where t: "xy E (h + f) = Inr t" ..
  from assms(2) show ?thesis
    by (simp add: verifyPartition_def pointAdd_def a b c t)
qed

lemma partition_sum:
  fixes c :: "string \<Rightarrow> 'p::ab_group_add"
  assumes "distinct (A @ B)" and "set A \<union> set B = set K" and "distinct K"
  shows "sum_list (map c A) + sum_list (map c B) = sum_list (map c K)"
proof -
  from assms(1) have dA: "distinct A" and dB: "distinct B" and disj: "set A \<inter> set B = {}"
    by auto
  have "sum_list (map c A) + sum_list (map c B) = sum c (set A) + sum c (set B)"
    by (simp add: sum_list_distinct_conv_sum_set dA dB)
  also have "\<dots> = sum c (set A \<union> set B)"
    by (simp add: sum.union_disjoint disj)
  also have "\<dots> = sum_list (map c K)"
    by (simp add: assms(2) sum_list_distinct_conv_sum_set assms(3))
  finally show ?thesis .
qed

lemma pointMul_int: "pointMul (P::int) k = int k * P"
  by (induction k) (simp_all add: algebra_simps)

lemma xy_InlD: "xy E P = Inl e \<Longrightarrow> e = TypeError \<and> P = 0"
  by (auto simp: xy_def coordText_def split: if_splits)

lemma pointAdd_points: "pointAdd (Point a) (Point b) = Inr (Point (a + b))"
  by (simp add: pointAdd_def)

lemma commitField_returns_any:
  assumes "rand = (case r of Some r' \<Rightarrow> r' | None \<Rightarrow> fst (randomScalar E rng))"
    and "pointMul (ec_g E) (hashToScalar E (commitMessage n v)) \<noteq> 0"
    and "pointMul (ec_h E) rand \<noteq> 0"
    and "pointMul (ec_g E) (hashToScalar E (commitMessage n v)) + pointMul (ec_h E) rand \<noteq> 0"
  shows "\<exists>fc. commitField E rng n v r =
               (Inr fc, (case r of Some r' \<Rightarrow> rng | None \<Rightarrow> Suc rng))"
proof -
  from xy_Inr [OF assms(2), of E] obtain a where
    a: "xy E (pointMul (ec_g E) (hashToScalar E (commitMessage n v))) = Inr a" ..
  from xy_Inr [OF assms(3), of E] obtain b where b: "xy E (pointMul (ec_h E) rand) = Inr b" ..
  from xy_Inr [OF assms(4), of E] obtain c where c:
    "xy E (pointMul (ec_g E) (hashToScalar E (commitMessage n v)) + pointMul (ec_h E) rand) = Inr c" ..
  show ?thesis
  proof (cases r)
    case None
    with assms(1) have "randomScalar E rng = (rand, Suc rng)" by (simp add: randomScalar_def)
    with None show ?thesis by (simp add: commitField_def Let_def a b c)
  next
    case (Some r')
    with assms(1) have "rand = r'" by simp
    with Some show ?thesis using a b c by (simp add: commitField_def Let_def)
  qed
qed

subsection \<open>The engine on the stand-in library\<close>

lemma testExt_h: "ec_h testExt = 24"
  by (simp add: ec_h_def testExt_def pointMul_int ec_n_def)

lemma testExt_hash: "length s < 100000 \<Longrightarrow> hashToScalar testExt s = length s"
  by (simp add: hashToScalar_digest testExt_def ec_n_def)

lemma testExt_draw: "i < 100000 \<Longrightarrow> fst (randomScalar testExt i) = 7 * i + 3"
  by (simp add: randomScalar_def testExt_def ec_n_def)

lemma fieldPoint_pos: "0 < fieldPoint i n v"
  by (simp add: fieldPoint_def)

lemma testExt_commitField:
  assumes "i < 100000" and "length n + length v < 99000"
  shows "\<exists>fc. commitField testExt i n v None = (Inr fc, Suc i) \<and>
              fcCommitment fc = fieldPoint i n v"
proof -
  from assms(2) have len: "length (commitMessage n v) < 100000" by (simp add: commitMessage_def)
  have g: "ec_g testExt = 1" by (simp add: testExt_def)
  have m: "pointMul (ec_g testExt) (hashToScalar testExt (commitMessage n v)) =
             int (length (commitMessage n v))"
    by (simp add: testExt_hash [OF len] g pointMul_int)
  have hr: "pointMul (ec_h testExt) (7 * i + 3) = 24 * int (7 * i + 3)"
    by (simp add: testExt_h pointMul_int)
  have r: "7 * i + 3 = (case None of Some r' \<Rightarrow> r' | None \<Rightarrow> fst (randomScalar testExt i))"
    by (simp add: testExt_draw [OF assms(1)])
  have m0: "pointMul (ec_g testExt) (hashToScalar testExt (commitMessage n v)) \<noteq> 0"
    unfolding m by (simp add: commitMessage_def)
  have h0: "pointMul (ec_h testExt) (7 * i + 3) \<noteq> 0" unfolding hr by simp
  have s0: "pointMul (ec_g testExt) (hashToScalar testExt (commitMessage n v)) +
            pointMul (ec_h testExt) (7 * i + 3) \<noteq> 0"
    unfolding m hr by (simp add: commitMessage_def)
  from commitField_returns_any [OF r m0 h0 s0]
  obtain fc where fc: "commitField testExt i n v None = (Inr fc, Suc i)" by auto
  from commitField_InrD(1,3) [OF fc] testExt_draw [OF assms(1)] m hr
  have "fcCommitment fc = fieldPoint i n v" by (simp add: fieldPoint_def)
  with fc show ?thesis by blast
qed

lemma testExt_commitLoop:
  assumes "accRng acc + length R < 100000"
    and "\<forall>e \<in> set R. length (fst e) + length (snd e) < 99000"
    and "accRecordCommitment acc \<noteq> Undefined"
    and "\<forall>n fc. getFC (accFieldCommitments acc) n = Own fc \<longrightarrow> 0 < fcCommitment fc"
  shows "\<exists>acc'. commitRecordLoop testExt R acc = (Inr acc', accRng acc + length R) \<and>
           accRecordCommitment acc' =
             accumulate (accRecordCommitment acc) (expectedPoints (accRng acc) R) \<and>
           (\<forall>n fc. getFC (accFieldCommitments acc') n = Own fc \<longrightarrow> 0 < fcCommitment fc)"
  using assms
proof (induction R arbitrary: acc)
  case Nil
  then show ?case by simp
next
  case (Cons e R)
  obtain n v where e: "e = (n, v)" by (cases e)
  from Cons.prems(1) have i: "accRng acc < 100000" by simp
  from Cons.prems(2) e have len: "length n + length v < 99000" by simp
  from testExt_commitField [OF i len]
  obtain fc where cf: "commitField testExt (accRng acc) n v None = (Inr fc, Suc (accRng acc))"
    and c: "fcCommitment fc = fieldPoint (accRng acc) n v"
    by blast
  let ?c = "Point (case accRecordCommitment acc of Point s \<Rightarrow> s + fcCommitment fc
                    | _ \<Rightarrow> fcCommitment fc)"
  let ?acc1 = "\<lparr>accFieldCommitments = setFC (accFieldCommitments acc) n fc,
              accTotalM = (accTotalM acc + hashToScalar testExt (commitMessage n v)) mod ec_n,
              accTotalR = (accTotalR acc + randomness fc) mod ec_n,
              accRecordCommitment = ?c,
              accRng = Suc (accRng acc)\<rparr>"
  from addTo_step [OF Cons.prems(3)]
  have step: "addTo (accRecordCommitment acc) (Point (fcCommitment fc)) = Inr ?c" .
  have unfold: "commitRecordLoop testExt (e # R) acc = commitRecordLoop testExt R ?acc1"
    by (simp add: e cf step)
  have inv1: "\<forall>k fc'. getFC (accFieldCommitments ?acc1) k = Own fc' \<longrightarrow> 0 < fcCommitment fc'"
  proof (intro allI impI)
    fix k fc' assume "getFC (accFieldCommitments ?acc1) k = Own fc'"
    then have "getFC (setFC (accFieldCommitments acc) n fc) k = Own fc'" by simp
    from getFC_setFC_Own [OF this] show "0 < fcCommitment fc'"
    proof
      assume "fc' = fc"
      with c show ?thesis by (simp add: fieldPoint_pos)
    next
      assume "getFC (accFieldCommitments acc) k = Own fc'"
      with Cons.prems(4) show ?thesis by blast
    qed
  qed
  have p1: "accRng ?acc1 + length R < 100000" using Cons.prems(1) by simp
  have p2: "\<forall>e \<in> set R. length (fst e) + length (snd e) < 99000" using Cons.prems(2) by simp
  have p3: "accRecordCommitment ?acc1 \<noteq> Undefined" by simp
  from Cons.IH [OF p1 p2 p3 inv1]
  obtain acc' where
    l: "commitRecordLoop testExt R ?acc1 = (Inr acc', accRng ?acc1 + length R)" and
    s: "accRecordCommitment acc' =
          accumulate (accRecordCommitment ?acc1) (expectedPoints (accRng ?acc1) R)" and
    inv: "\<forall>n fc. getFC (accFieldCommitments acc') n = Own fc \<longrightarrow> 0 < fcCommitment fc"
    by blast
  from l have l': "commitRecordLoop testExt (e # R) acc = (Inr acc', accRng acc + length (e # R))"
    unfolding unfold by simp
  from s c have s': "accRecordCommitment acc' =
      accumulate (accRecordCommitment acc) (expectedPoints (accRng acc) (e # R))"
    by (simp add: e split: jsPoint.splits)
  from l' s' inv show ?case by blast
qed

lemma expectedPoints_pos: "R \<noteq> [] \<Longrightarrow> 0 < sum_list (expectedPoints i R)"
proof (induction R arbitrary: i)
  case Nil
  then show ?case by simp
next
  case (Cons e R)
  obtain n v where e: "e = (n, v)" by (cases e)
  show ?case
  proof (cases "R = []")
    case True
    then show ?thesis by (simp add: e fieldPoint_pos)
  next
    case False
    from Cons.IH [OF False, of "Suc i"] fieldPoint_pos [of i n v]
    show ?thesis by (simp add: e)
  qed
qed

lemma expectedPoints_nonempty: "R \<noteq> [] \<Longrightarrow> expectedPoints i R \<noteq> []"
  by (cases R) auto

lemma testExt_commitRecord:
  assumes "R \<noteq> []" and "rng + length R < 100000"
    and "\<forall>e \<in> set R. length (fst e) + length (snd e) < 99000"
  shows "\<exists>cr. commitRecord testExt rng R = (Inr cr, rng + length R) \<and>
           recordCommitment cr = sum_list (expectedPoints rng R) \<and>
           (\<forall>n fc. getFC (fieldCommitments cr) n = Own fc \<longrightarrow> 0 < fcCommitment fc)"
proof -
  have p1: "accRng (initialAcc rng :: int commitAcc) + length R < 100000"
    using assms(2) by (simp add: initialAcc_def)
  have p3: "accRecordCommitment (initialAcc rng :: int commitAcc) \<noteq> Undefined"
    by (simp add: initialAcc_def)
  have p4: "\<forall>n fc. getFC (accFieldCommitments (initialAcc rng :: int commitAcc)) n = Own fc \<longrightarrow>
              0 < fcCommitment fc"
    by (simp add: initialAcc_def getFC_emptyObject)
  from testExt_commitLoop [OF p1 assms(3) p3 p4]
  obtain acc' where
    l: "commitRecordLoop testExt R (initialAcc rng) = (Inr acc', rng + length R)" and
    s: "accRecordCommitment acc' = Point (sum_list (expectedPoints rng R))" and
    inv: "\<forall>n fc. getFC (accFieldCommitments acc') n = Own fc \<longrightarrow> 0 < fcCommitment fc"
    by (auto simp: initialAcc_def accumulate_Null expectedPoints_nonempty [OF assms(1)])
  from expectedPoints_pos [OF assms(1), of rng]
  have "sum_list (expectedPoints rng R) \<noteq> 0" by simp
  from xy_Inr [OF this, of testExt] obtain c where
    c: "xy testExt (sum_list (expectedPoints rng R)) = Inr c" ..
  from l have l': "commitRecordLoop testExt R
             \<lparr>accFieldCommitments = emptyObject, accTotalM = 0, accTotalR = 0,
              accRecordCommitment = Null, accRng = rng\<rparr> = (Inr acc', rng + length R)"
    by (simp add: initialAcc_def)
  show ?thesis
    using inv by (simp add: commitRecord_def l' s c)
qed

lemma sum_list_pos_int:
  fixes xs :: "int list"
  shows "xs \<noteq> [] \<Longrightarrow> \<forall>x \<in> set xs. 0 < x \<Longrightarrow> 0 < sum_list xs"
proof (induction xs)
  case Nil
  then show ?case by simp
next
  case (Cons x xs)
  show ?case
  proof (cases "xs = []")
    case True
    with Cons.prems show ?thesis by simp
  next
    case False
    with Cons have "0 < sum_list xs" by simp
    with Cons.prems show ?thesis by simp
  qed
qed

lemma own_sum_pos:
  fixes fcs :: "int fcObject"
  assumes "\<forall>n fc. getFC fcs n = Own fc \<longrightarrow> 0 < fcCommitment fc"
    and "\<forall>n \<in> set A. \<exists>fc. getFC fcs n = Own fc" and "A \<noteq> []"
  shows "0 < sum_list (map (commitmentOf fcs) A)"
proof (rule sum_list_pos_int)
  from assms(3) show "map (commitmentOf fcs) A \<noteq> []" by simp
  show "\<forall>x \<in> set (map (commitmentOf fcs) A). 0 < x"
  proof
    fix x assume "x \<in> set (map (commitmentOf fcs) A)"
    then obtain n where n: "n \<in> set A" and x: "x = commitmentOf fcs n" by auto
    from assms(2) n obtain fc where fc: "getFC fcs n = Own fc" by blast
    with assms(1) have "0 < fcCommitment fc" by blast
    with fc x show "0 < x" by (simp add: commitmentOf_def)
  qed
qed

section \<open>The commitment engine: claims\<close>

text \<open>
  Claim C3 (subset homomorphism), as the code has it. Let \<^verbatim>\<open>commitRecord\<close> have returned
  for a record \<open>R\<close> with distinct field names, and let the names be partitioned into two
  lists \<open>A\<close> and \<open>B\<close> that are both non-empty. Then the subset commitments of \<open>A\<close> and
  of \<open>B\<close>, taken from the returned field commitments, are points, and their point sum
  is the returned record commitment. (With an empty side the subset commitment is
  \<^verbatim>\<open>null\<close> and there is no sum; see the counterexample.)
\<close>

theorem subset_homomorphism:
  assumes "commitRecord E rng R = (Inr cr, rng')"
    and "distinct (map fst R)"
    and "distinct (A @ B)" and "set A \<union> set B = fst ` set R"
    and "A \<noteq> []" and "B \<noteq> []"
  shows "\<exists>a b.
           computeSubsetCommitment (fieldCommitments cr) A =
             Inr \<lparr>subsetCommitment = Point a, included = A\<rparr> \<and>
           computeSubsetCommitment (fieldCommitments cr) B =
             Inr \<lparr>subsetCommitment = Point b, included = B\<rparr> \<and>
           pointAdd (Point a) (Point b) = Inr (Point (recordCommitment cr))"
proof -
  let ?fcs = "fieldCommitments cr"
  have present: "\<exists>fc. getFC ?fcs n = Own fc" if "n \<in> fst ` set R" for n
  proof -
    from that obtain v where "(n, v) \<in> set R" by auto
    from commitRecord_entries [OF assms(1,2) this] show ?thesis by blast
  qed
  from assms(4) have "set A \<subseteq> fst ` set R" and "set B \<subseteq> fst ` set R" by blast+
  with present have pA: "\<forall>n \<in> set A. \<exists>fc. getFC ?fcs n = Own fc"
    and pB: "\<forall>n \<in> set B. \<exists>fc. getFC ?fcs n = Own fc"
    by blast+
  have "sum_list (map (commitmentOf ?fcs) A) + sum_list (map (commitmentOf ?fcs) B) =
        sum_list (map (commitmentOf ?fcs) (map fst R))"
    by (rule partition_sum) (use assms in auto)
  then have "pointAdd (Point (sum_list (map (commitmentOf ?fcs) A)))
                      (Point (sum_list (map (commitmentOf ?fcs) B))) =
             Inr (Point (recordCommitment cr))"
    by (simp add: pointAdd_points commitRecord_sum(1) [OF assms(1,2)])
  with subset_of_own [OF pA assms(5)] subset_of_own [OF pB assms(6)] show ?thesis by blast
qed

theorem subset_homomorphism_witness:
  "\<exists>cr a b.
     commitRecord testExt 0 [(''name'', ''Ahmed''), (''phone'', ''+966''), (''email'', ''a@b'')]
       = (Inr cr, 3) \<and>
     recordCommitment cr = 752 \<and>
     computeSubsetCommitment (fieldCommitments cr) [''name'', ''email''] =
       Inr \<lparr>subsetCommitment = Point a, included = [''name'', ''email'']\<rparr> \<and>
     computeSubsetCommitment (fieldCommitments cr) [''phone''] =
       Inr \<lparr>subsetCommitment = Point b, included = [''phone'']\<rparr> \<and>
     pointAdd (Point a) (Point b) = Inr (Point 752)"
proof -
  let ?R = "[(''name'', ''Ahmed''), (''phone'', ''+966''), (''email'', ''a@b'')]"
  have "?R \<noteq> []" "0 + length ?R < 100000"
    "\<forall>e \<in> set ?R. length (fst e) + length (snd e) < 99000"
    by simp_all
  from testExt_commitRecord [OF this]
  obtain cr where cr: "commitRecord testExt 0 ?R = (Inr cr, 3)"
    and rc: "recordCommitment cr = 752"
    by (auto simp: fieldPoint_def commitMessage_def)
  have cover: "set [''name'', ''email''] \<union> set [''phone''] = fst ` set ?R" by auto
  from subset_homomorphism [OF cr _ _ cover]
  obtain a b where
    "computeSubsetCommitment (fieldCommitments cr) [''name'', ''email''] =
       Inr \<lparr>subsetCommitment = Point a, included = [''name'', ''email'']\<rparr>"
    "computeSubsetCommitment (fieldCommitments cr) [''phone''] =
       Inr \<lparr>subsetCommitment = Point b, included = [''phone'']\<rparr>"
    "pointAdd (Point a) (Point b) = Inr (Point (recordCommitment cr))"
    by auto
  with cr rc show ?thesis by auto
qed

theorem subset_homomorphism_counterexample:
  "\<exists>cr b.
     commitRecord testExt 0 [(''name'', ''Ahmed'')] = (Inr cr, 1) \<and>
     computeSubsetCommitment (fieldCommitments cr) [] =
       Inr \<lparr>subsetCommitment = Null, included = []\<rparr> \<and>
     computeSubsetCommitment (fieldCommitments cr) [''name''] =
       Inr \<lparr>subsetCommitment = Point b, included = [''name'']\<rparr> \<and>
     recordCommitment cr = b \<and>
     pointAdd Null (Point b) = Inl TypeError \<and>
     pointAdd (Point b) Null = Inl TypeError"
proof -
  let ?R = "[(''name'', ''Ahmed'')]"
  have "?R \<noteq> []" "0 + length ?R < 100000"
    "\<forall>e \<in> set ?R. length (fst e) + length (snd e) < 99000"
    by simp_all
  from testExt_commitRecord [OF this]
  obtain cr where cr: "commitRecord testExt 0 ?R = (Inr cr, 1)"
    and rc: "recordCommitment cr = 83"
    by (auto simp: fieldPoint_def commitMessage_def)
  from commitRecord_entries [OF cr, of "''name''" "''Ahmed''"]
  have own: "\<forall>n \<in> set [''name'']. \<exists>fc. getFC (fieldCommitments cr) n = Own fc" by auto
  from subset_of_own [OF own]
  have sub: "computeSubsetCommitment (fieldCommitments cr) [''name''] =
       Inr \<lparr>subsetCommitment = Point (commitmentOf (fieldCommitments cr) ''name''),
            included = [''name'']\<rparr>"
    by simp
  from commitRecord_sum(1) [OF cr] rc
  have b: "commitmentOf (fieldCommitments cr) ''name'' = 83" by simp
  have empty: "computeSubsetCommitment (fieldCommitments cr) [] =
       Inr \<lparr>subsetCommitment = Null, included = []\<rparr>"
    by (simp add: computeSubsetCommitment_def)
  have "pointAdd Null (Point (83::int)) = Inl TypeError"
    "pointAdd (Point (83::int)) Null = Inl TypeError"
    by (simp_all add: pointAdd_def)
  with cr rc sub [unfolded b] empty show ?thesis by auto
qed

text \<open>
  Claim C4 (commitment reproducibility) fails on the code for the blinding factor 0:
  \<open>h \<cdot> 0\<close> is the point at infinity, and \<^verbatim>\<open>commitField\<close> reads its coordinates for
  the \<^verbatim>\<open>math\<close> object before it returns, which ends in a \<^verbatim>\<open>TypeError\<close>. So for
  every name and value \<^verbatim>\<open>commitField(n, v, new BN(0))\<close> returns no commitment.
\<close>

theorem commitField_zero_blinding_throws:
  "commitField E rng n v (Some 0) = (Inl TypeError, rng)"
proof (cases "xy E (pointMul (ec_g E) (hashToScalar E (commitMessage n v)))")
  case (Inl e)
  with xy_InlD [OF Inl] show ?thesis by (simp add: commitField_def Let_def)
next
  case (Inr c)
  then show ?thesis by (simp add: commitField_def Let_def xy_zero)
qed

text \<open>
  Whenever \<^verbatim>\<open>commitField\<close> returns, its commitment is the point of the claim, and it
  returns unless one of the three points whose coordinates it reads is the point at
  infinity. The commitment is then reproducible from the name, the value and the
  blinding factor: \<^verbatim>\<open>recomputeCommitment\<close> rebuilds it from the opening that carries
  the factor in hex.
\<close>

lemma commitField_commitment:
  assumes "commitField E rng n v r = (Inr fc, rng')"
  shows "fcCommitment fc =
           pointMul (ec_g E) (hashToScalar E (n @ ''||'' @ v)) + pointMul (ec_h E) (randomness fc)"
    and "\<exists>ds. recomputeCommitment E
           [\<lparr>o_fieldName = n, o_value = v, o_randomness = serializeBN (randomness fc)\<rparr>] =
           Inr \<lparr>recomputed = Point (fcCommitment fc), details = ds\<rparr>"
proof -
  note d = commitField_InrD [OF assms]
  from d(1) show "fcCommitment fc =
           pointMul (ec_g E) (hashToScalar E (n @ ''||'' @ v)) + pointMul (ec_h E) (randomness fc)"
    by (simp add: commitMessage_def)
  let ?o = "\<lparr>o_fieldName = n, o_value = v, o_randomness = serializeBN (randomness fc)\<rparr>"
  have op: "openingPoint E ?o = fcCommitment fc"
    by (simp add: openingPoint_def hexNumber_serializeBN d(1))
  with d(2) have "\<forall>f \<in> set [?o]. list_all isHexDigit (o_randomness f) \<and> openingPoint E f \<noteq> 0"
    by (simp add: serializeBN_hex)
  from recompute_openings [OF this] op
  show "\<exists>ds. recomputeCommitment E [?o] = Inr \<lparr>recomputed = Point (fcCommitment fc), details = ds\<rparr>"
    by simp
qed

text \<open>
  Claim C5 (empty input), as the code has it. \<^verbatim>\<open>computeSubsetCommitment\<close> on a list
  of names for none of which the look-up \<^verbatim>\<open>fieldCommitments[name]\<close> finds anything,
  neither a property of the object nor a member that it inherits from its prototype (the
  empty list among them), skips every name and returns the commitment \<^verbatim>\<open>null\<close> with
  nothing included, and \<^verbatim>\<open>recomputeCommitment\<close> on no openings returns the commitment
  \<^verbatim>\<open>null\<close> with no details. Neither returns a point, the identity included; and a
  name such as \<^verbatim>\<open>constructor\<close>, which every object inherits, is not skipped (see the
  counterexample).
\<close>

theorem empty_input_is_null:
  assumes "\<forall>n \<in> set names. getFC fcs n = Absent"
  shows "computeSubsetCommitment fcs names = Inr \<lparr>subsetCommitment = Null, included = []\<rparr>
         \<and> recomputeCommitment E [] = Inr \<lparr>recomputed = Null, details = []\<rparr>"
proof -
  have "computeSubsetLoop fcs names acc = Inr acc" for acc
    using assms by (induction names arbitrary: acc) auto
  then show ?thesis
    by (simp add: computeSubsetCommitment_def recomputeCommitment_def)
qed

theorem empty_input_is_null_witness:
  "computeSubsetCommitment (emptyObject :: int fcObject) [''phone'', ''email'']
     = Inr \<lparr>subsetCommitment = Null, included = []\<rparr>
   \<and> computeSubsetCommitment (emptyObject :: int fcObject) []
     = Inr \<lparr>subsetCommitment = Null, included = []\<rparr>
   \<and> recomputeCommitment testExt [] = Inr \<lparr>recomputed = Null, details = []\<rparr>"
  using empty_input_is_null [of "[''phone'', ''email'']" "emptyObject :: int fcObject" testExt]
    empty_input_is_null [of "[]" "emptyObject :: int fcObject" testExt]
  by (simp add: getFC_emptyObject objectPrototypeMembers_def)

theorem empty_input_identity_counterexample:
  "computeSubsetCommitment (emptyObject :: int fcObject) [] \<noteq>
     Inr \<lparr>subsetCommitment = Point 0, included = []\<rparr>
   \<and> recomputeCommitment testExt [] \<noteq> Inr \<lparr>recomputed = Point 0, details = []\<rparr>
   \<and> computeSubsetCommitment (emptyObject :: int fcObject) [''constructor''] =
       Inr \<lparr>subsetCommitment = Undefined, included = [''constructor'']\<rparr>"
  by (simp add: computeSubsetCommitment_def recomputeCommitment_def getFC_emptyObject
      objectPrototypeMembers_def addTo_def)

text \<open>
  Claim C6 (empty record), as the code has it. For a record with no fields
  \<^verbatim>\<open>commitRecord\<close> returns no record commitment at all (its accumulator is still
  \<^verbatim>\<open>null\<close> when the result is built, which ends in a \<^verbatim>\<open>TypeError\<close>), so there is no
  \<open>C_D\<close> equal to the group identity. The subset commitment of no names and the
  commitment recomputed from no openings are \<^verbatim>\<open>null\<close> as well, and
  \<^verbatim>\<open>verifyPartition\<close> returns no verdict for a proof with no openings, whatever \<open>C_D\<close>
  and \<open>C_H\<close> are.
\<close>

theorem empty_record_no_commitment:
  "commitRecord E rng [] = (Inl TypeError, rng)
   \<and> fst (commitRecord E rng []) \<noteq> Inr cr
   \<and> computeSubsetCommitment fcs [] = Inr \<lparr>subsetCommitment = Null, included = []\<rparr>
   \<and> recomputeCommitment E [] = Inr \<lparr>recomputed = Null, details = []\<rparr>
   \<and> verifyPartition E cD cH Null = Inl TypeError
   \<and> verifyPartition E cD cH Null \<noteq> Inr res"
proof -
  have v: "verifyPartition E cD cH Null = Inl TypeError"
    by (cases cH) (simp_all add: verifyPartition_def pointAdd_def split: jsPoint.splits)
  then show ?thesis
    by (simp add: commitRecord_def computeSubsetCommitment_def recomputeCommitment_def)
qed

theorem empty_record_counterexample:
  "fst (commitRecord testExt 0 []) = Inl TypeError
   \<and> recomputeCommitment testExt [] = Inr \<lparr>recomputed = Null, details = []\<rparr>
   \<and> verifyPartition testExt (Point 0) (Point 0) Null = Inl TypeError
   \<and> verifyPartition testExt (Point 5) (Point 5) Null = Inl TypeError"
  by (simp add: commitRecord_def recomputeCommitment_def verifyPartition_def pointAdd_def)

section \<open>Openings and the partition check\<close>

lemma memberGet_Own_iff: "memberGet m k = Own v \<longleftrightarrow> m k = Some v"
  by (simp add: memberGet_def split: option.splits)

lemma memberGet_Some: "m k = Some v \<Longrightarrow> memberGet m k = Own v"
  by (simp add: memberGet_def)

lemma filterLoop_openings:
  "filterLoop rec fcs names (fd, os) = Inr (fd', os') \<Longrightarrow>
   os' = os @ map (honestOpening rec fcs)
                (filter (\<lambda>n. memberGet (map_of rec) n \<noteq> Absent) names) \<and>
   (\<forall>n \<in> set (filter (\<lambda>n. memberGet (map_of rec) n \<noteq> Absent) names).
      (\<exists>v. map_of rec n = Some v) \<and> (\<exists>fc. getFC fcs n = Own fc))"
proof (induction names arbitrary: fd os)
  case Nil
  then show ?case by simp
next
  case (Cons n names)
  show ?case
  proof (cases "memberGet (map_of rec) n")
    case Absent
    with Cons show ?thesis by simp
  next
    case (Inherited t)
    with Cons.prems show ?thesis by simp
  next
    case (Own v)
    then have v: "map_of rec n = Some v" by (simp add: memberGet_Own_iff)
    from Cons.prems Own obtain fc where fc: "getFC fcs n = Own fc"
      by (cases "getFC fcs n") auto
    from Cons.prems Own fc
    have "filterLoop rec fcs names
            (if n = ''__proto__'' then fd else AList.update n v fd,
             os @ [\<lparr>o_fieldName = n, o_value = v, o_randomness = serializeBN (randomness fc)\<rparr>])
          = Inr (fd', os')"
      by simp
    from Cons.IH [OF this] Own v fc show ?thesis
      by (simp add: honestOpening_def randomnessOf_def)
  qed
qed

lemma filterLoop_returns:
  "\<forall>n \<in> set names. memberGet (map_of rec) n \<noteq> Absent \<longrightarrow>
      (\<exists>v. map_of rec n = Some v) \<and> (\<exists>fc. getFC fcs n = Own fc) \<Longrightarrow>
   \<exists>res. filterLoop rec fcs names acc = Inr res"
proof (induction names arbitrary: acc)
  case Nil
  then show ?case by simp
next
  case (Cons n names)
  obtain fd os where acc: "acc = (fd, os)" by (cases acc)
  from Cons.prems have rest: "\<forall>n \<in> set names. memberGet (map_of rec) n \<noteq> Absent \<longrightarrow>
      (\<exists>v. map_of rec n = Some v) \<and> (\<exists>fc. getFC fcs n = Own fc)"
    by simp
  show ?case
  proof (cases "memberGet (map_of rec) n = Absent")
    case True
    with Cons.IH [OF rest] acc show ?thesis by simp
  next
    case False
    with Cons.prems obtain v fc where v: "map_of rec n = Some v" and fc: "getFC fcs n = Own fc"
      by auto
    from v have "memberGet (map_of rec) n = Own v" by (rule memberGet_Some)
    with Cons.IH [OF rest] acc fc show ?thesis by simp
  qed
qed

lemma honest_openings:
  assumes "commitRecord E rng R = (Inr cr, rng')"
    and "distinct (map fst R)"
    and "set V \<subseteq> fst ` set R" and "V \<noteq> []"
  shows "\<exists>filtered ds.
           filterLoop R (fieldCommitments cr) V ([], []) =
             Inr (filtered, map (honestOpening R (fieldCommitments cr)) V) \<and>
           recomputeCommitment E (map (honestOpening R (fieldCommitments cr)) V) =
             Inr \<lparr>recomputed = Point (sum_list (map (commitmentOf (fieldCommitments cr)) V)),
                  details = ds\<rparr>"
proof -
  let ?fcs = "fieldCommitments cr"
  have entry: "\<exists>v fc. map_of R n = Some v \<and> getFC ?fcs n = Own fc \<and>
                 fcCommitment fc = pointMul (ec_g E) (hashToScalar E (commitMessage n v)) +
                                   pointMul (ec_h E) (randomness fc) \<and>
                 fcCommitment fc \<noteq> 0"
    if "n \<in> set V" for n
  proof -
    from that assms(3) obtain v where nv: "(n, v) \<in> set R" by auto
    with assms(2) have "map_of R n = Some v" by simp
    with commitRecord_entries [OF assms(1,2) nv] show ?thesis by auto
  qed
  have keep: "memberGet (map_of R) n \<noteq> Absent" if "n \<in> set V" for n
    using entry [OF that] by (auto simp: memberGet_def)
  then have keepV: "filter (\<lambda>n. memberGet (map_of R) n \<noteq> Absent) V = V"
    by (simp add: filter_id_conv)
  from entry have "\<forall>n \<in> set V. memberGet (map_of R) n \<noteq> Absent \<longrightarrow>
      (\<exists>v. map_of R n = Some v) \<and> (\<exists>fc. getFC ?fcs n = Own fc)"
    by blast
  from filterLoop_returns [OF this]
  obtain filtered openings where fl: "filterLoop R ?fcs V ([], []) = Inr (filtered, openings)"
    by (metis surj_pair)
  from filterLoop_openings [OF fl] keepV
  have os: "openings = map (honestOpening R ?fcs) V" by simp
  have point: "openingPoint E (honestOpening R ?fcs n) = commitmentOf ?fcs n"
    and ok: "list_all isHexDigit (o_randomness (honestOpening R ?fcs n)) \<and>
             openingPoint E (honestOpening R ?fcs n) \<noteq> 0"
    if "n \<in> set V" for n
  proof -
    from entry [OF that] obtain v fc where e: "map_of R n = Some v" "getFC ?fcs n = Own fc"
      "fcCommitment fc = pointMul (ec_g E) (hashToScalar E (commitMessage n v)) +
                                   pointMul (ec_h E) (randomness fc)"
      "fcCommitment fc \<noteq> 0"
      by blast
    then show p: "openingPoint E (honestOpening R ?fcs n) = commitmentOf ?fcs n"
      by (simp add: openingPoint_def honestOpening_def hexNumber_serializeBN
          commitmentOf_def randomnessOf_def)
    from e(2,4) show "list_all isHexDigit (o_randomness (honestOpening R ?fcs n)) \<and>
             openingPoint E (honestOpening R ?fcs n) \<noteq> 0"
      unfolding p by (simp add: honestOpening_def serializeBN_hex commitmentOf_def)
  qed
  from ok have all: "\<forall>f \<in> set (map (honestOpening R ?fcs) V).
      list_all isHexDigit (o_randomness f) \<and> openingPoint E f \<noteq> 0"
    by auto
  from assms(4) have ne: "map (honestOpening R ?fcs) V \<noteq> []" by simp
  from point have mapeq: "map (openingPoint E) (map (honestOpening R ?fcs) V) =
                          map (commitmentOf ?fcs) V"
    by simp
  from recompute_openings [OF all ne]
  obtain ds where rcm: "recomputeCommitment E (map (honestOpening R ?fcs) V) =
      Inr \<lparr>recomputed = Point (sum_list (map (openingPoint E) (map (honestOpening R ?fcs) V))),
           details = ds\<rparr>" ..
  note rcm' = rcm [unfolded mapeq]
  from fl [unfolded os] rcm' show ?thesis by blast
qed

lemma honestOpening_names: "map o_fieldName (map (honestOpening rec fcs) V) = V"
  by (simp add: honestOpening_def comp_def)

text \<open>
  Claim C1 (honest partition correctness), as the code has it. Let \<^verbatim>\<open>commitRecord\<close>
  have returned for a record \<open>R\<close> with distinct field names, partitioned into a visible
  list \<open>V\<close> and a hidden list \<open>H\<close> that are both non-empty and together cover the names
  of \<open>R\<close>. Then the loop of Dispense over \<open>V\<close> returns one opening (name, value, hex
  blinding factor) per visible field; the subset commitment \<open>C_H\<close> of \<open>H\<close> and the
  commitment \<open>C_F\<close> recomputed from the openings are points; and, provided neither of the
  two is the point at infinity, \<^verbatim>\<open>verifyPartition\<close> applied to the record commitment,
  \<open>C_H\<close> and \<open>C_F\<close> returns with \<open>valid = true\<close>. (With \<open>H\<close> or \<open>V\<close> empty the
  commitment of that side is \<^verbatim>\<open>null\<close> and \<^verbatim>\<open>verifyPartition\<close> ends in a
  \<^verbatim>\<open>TypeError\<close>; see the counterexample.)
\<close>

theorem honest_partition_verifies:
  assumes "commitRecord E rng R = (Inr cr, rng')"
    and "distinct (map fst R)"
    and "distinct (V @ H)" and "set V \<union> set H = fst ` set R"
    and "V \<noteq> []" and "H \<noteq> []"
  shows "\<exists>filtered openings h f ds.
           filterLoop R (fieldCommitments cr) V ([], []) = Inr (filtered, openings) \<and>
           map o_fieldName openings = V \<and>
           computeSubsetCommitment (fieldCommitments cr) H =
             Inr \<lparr>subsetCommitment = Point h, included = H\<rparr> \<and>
           recomputeCommitment E openings = Inr \<lparr>recomputed = Point f, details = ds\<rparr> \<and>
           (h \<noteq> 0 \<and> f \<noteq> 0 \<longrightarrow>
              (\<exists>res. verifyPartition E (Point (recordCommitment cr)) (Point h) (Point f) = Inr res \<and>
                     valid res))"
proof -
  let ?fcs = "fieldCommitments cr"
  let ?h = "sum_list (map (commitmentOf ?fcs) H)"
  let ?f = "sum_list (map (commitmentOf ?fcs) V)"
  from assms(4) have subV: "set V \<subseteq> fst ` set R" and subH: "set H \<subseteq> fst ` set R" by blast+
  from honest_openings [OF assms(1,2) subV assms(5)]
  obtain filtered ds where
    fl: "filterLoop R ?fcs V ([], []) = Inr (filtered, map (honestOpening R ?fcs) V)" and
    rc: "recomputeCommitment E (map (honestOpening R ?fcs) V) =
           Inr \<lparr>recomputed = Point ?f, details = ds\<rparr>"
    by blast
  have pH: "\<forall>n \<in> set H. \<exists>fc. getFC ?fcs n = Own fc"
  proof
    fix n assume "n \<in> set H"
    with subH obtain v where "(n, v) \<in> set R" by auto
    from commitRecord_entries [OF assms(1,2) this] show "\<exists>fc. getFC ?fcs n = Own fc" by blast
  qed
  note cH = subset_of_own [OF pH assms(6)]
  have "?f + ?h = sum_list (map (commitmentOf ?fcs) (map fst R))"
    by (rule partition_sum) (use assms in auto)
  then have eq: "recordCommitment cr = ?h + ?f"
    by (simp add: commitRecord_sum(1) [OF assms(1,2)] add.commute)
  have verdict: "\<exists>res. verifyPartition E (Point (recordCommitment cr)) (Point ?h) (Point ?f) = Inr res \<and>
                     valid res"
    if "?h \<noteq> 0" and "?f \<noteq> 0"
  proof -
    from commitRecord_sum(3) [OF assms(1,2)] have d: "recordCommitment cr \<noteq> 0" .
    with eq have s: "?h + ?f \<noteq> 0" by simp
    from verifyPartition_points [OF d that s, of E] eq show ?thesis by auto
  qed
  show ?thesis
    apply (rule exI [of _ filtered], rule exI [of _ "map (honestOpening R ?fcs) V"],
        rule exI [of _ ?h], rule exI [of _ ?f], rule exI [of _ ds])
    apply (intro conjI impI)
        apply (rule fl)
       apply (rule honestOpening_names)
      apply (rule cH)
     apply (rule rc)
    apply (erule conjE)
    apply (erule (1) verdict)
    done
qed

theorem honest_partition_verifies_witness:
  "\<exists>cr filtered openings h f ds res.
     commitRecord testExt 0 [(''name'', ''Ahmed''), (''phone'', ''+966''), (''email'', ''a@b'')]
       = (Inr cr, 3) \<and>
     filterLoop [(''name'', ''Ahmed''), (''phone'', ''+966''), (''email'', ''a@b'')]
       (fieldCommitments cr) [''name''] ([], []) = Inr (filtered, openings) \<and>
     map o_fieldName openings = [''name''] \<and>
     computeSubsetCommitment (fieldCommitments cr) [''email'', ''phone''] =
       Inr \<lparr>subsetCommitment = Point h, included = [''email'', ''phone'']\<rparr> \<and>
     recomputeCommitment testExt openings = Inr \<lparr>recomputed = Point f, details = ds\<rparr> \<and>
     h \<noteq> 0 \<and> f \<noteq> 0 \<and>
     verifyPartition testExt (Point (recordCommitment cr)) (Point h) (Point f) = Inr res \<and>
     valid res"
proof -
  let ?R = "[(''name'', ''Ahmed''), (''phone'', ''+966''), (''email'', ''a@b'')]"
  have "?R \<noteq> []" "0 + length ?R < 100000"
    "\<forall>e \<in> set ?R. length (fst e) + length (snd e) < 99000"
    by simp_all
  from testExt_commitRecord [OF this]
  obtain cr where cr: "commitRecord testExt 0 ?R = (Inr cr, 3)"
    and pos: "\<forall>n fc. getFC (fieldCommitments cr) n = Own fc \<longrightarrow> 0 < fcCommitment fc"
    by auto
  let ?fcs = "fieldCommitments cr"
  have d: "distinct (map fst ?R)" by simp
  have cover: "set [''name''] \<union> set [''email'', ''phone''] = fst ` set ?R" by auto
  have dVH: "distinct ([''name''] @ [''email'', ''phone''])" by simp
  have ne: "[''name''] \<noteq> []" "[''email'', ''phone''] \<noteq> []" by simp_all
  from honest_partition_verifies [OF cr d dVH cover ne]
  obtain filtered where "\<exists>openings h f ds.
    filterLoop ?R ?fcs [''name''] ([], []) = Inr (filtered, openings) \<and>
    map o_fieldName openings = [''name''] \<and>
    computeSubsetCommitment ?fcs [''email'', ''phone''] =
      Inr \<lparr>subsetCommitment = Point h, included = [''email'', ''phone'']\<rparr> \<and>
    recomputeCommitment testExt openings = Inr \<lparr>recomputed = Point f, details = ds\<rparr> \<and>
    (h \<noteq> 0 \<and> f \<noteq> 0 \<longrightarrow>
       (\<exists>res. verifyPartition testExt (Point (recordCommitment cr)) (Point h) (Point f) = Inr res \<and>
              valid res))" ..
  then obtain openings where "\<exists>h f ds.
    filterLoop ?R ?fcs [''name''] ([], []) = Inr (filtered, openings) \<and>
    map o_fieldName openings = [''name''] \<and>
    computeSubsetCommitment ?fcs [''email'', ''phone''] =
      Inr \<lparr>subsetCommitment = Point h, included = [''email'', ''phone'']\<rparr> \<and>
    recomputeCommitment testExt openings = Inr \<lparr>recomputed = Point f, details = ds\<rparr> \<and>
    (h \<noteq> 0 \<and> f \<noteq> 0 \<longrightarrow>
       (\<exists>res. verifyPartition testExt (Point (recordCommitment cr)) (Point h) (Point f) = Inr res \<and>
              valid res))" ..
  then obtain h where "\<exists>f ds.
    filterLoop ?R ?fcs [''name''] ([], []) = Inr (filtered, openings) \<and>
    map o_fieldName openings = [''name''] \<and>
    computeSubsetCommitment ?fcs [''email'', ''phone''] =
      Inr \<lparr>subsetCommitment = Point h, included = [''email'', ''phone'']\<rparr> \<and>
    recomputeCommitment testExt openings = Inr \<lparr>recomputed = Point f, details = ds\<rparr> \<and>
    (h \<noteq> 0 \<and> f \<noteq> 0 \<longrightarrow>
       (\<exists>res. verifyPartition testExt (Point (recordCommitment cr)) (Point h) (Point f) = Inr res \<and>
              valid res))" ..
  then obtain f where "\<exists>ds.
    filterLoop ?R ?fcs [''name''] ([], []) = Inr (filtered, openings) \<and>
    map o_fieldName openings = [''name''] \<and>
    computeSubsetCommitment ?fcs [''email'', ''phone''] =
      Inr \<lparr>subsetCommitment = Point h, included = [''email'', ''phone'']\<rparr> \<and>
    recomputeCommitment testExt openings = Inr \<lparr>recomputed = Point f, details = ds\<rparr> \<and>
    (h \<noteq> 0 \<and> f \<noteq> 0 \<longrightarrow>
       (\<exists>res. verifyPartition testExt (Point (recordCommitment cr)) (Point h) (Point f) = Inr res \<and>
              valid res))" ..
  then obtain ds where concl:
   "filterLoop ?R ?fcs [''name''] ([], []) = Inr (filtered, openings) \<and>
    map o_fieldName openings = [''name''] \<and>
    computeSubsetCommitment ?fcs [''email'', ''phone''] =
      Inr \<lparr>subsetCommitment = Point h, included = [''email'', ''phone'']\<rparr> \<and>
    recomputeCommitment testExt openings = Inr \<lparr>recomputed = Point f, details = ds\<rparr> \<and>
    (h \<noteq> 0 \<and> f \<noteq> 0 \<longrightarrow>
       (\<exists>res. verifyPartition testExt (Point (recordCommitment cr)) (Point h) (Point f) = Inr res \<and>
              valid res))" ..
  note fl = concl [THEN conjunct1]
    and names = concl [THEN conjunct2, THEN conjunct1]
    and cH = concl [THEN conjunct2, THEN conjunct2, THEN conjunct1]
    and rc = concl [THEN conjunct2, THEN conjunct2, THEN conjunct2, THEN conjunct1]
    and v = concl [THEN conjunct2, THEN conjunct2, THEN conjunct2, THEN conjunct2]
  have own: "\<exists>fc. getFC ?fcs n = Own fc" if "n \<in> fst ` set ?R" for n
  proof -
    from that obtain v where "(n, v) \<in> set ?R" by auto
    from commitRecord_entries [OF cr d this] show ?thesis by blast
  qed
  have ownH: "\<forall>n \<in> set [''email'', ''phone'']. \<exists>fc. getFC ?fcs n = Own fc"
    and ownV: "\<forall>n \<in> set [''name'']. \<exists>fc. getFC ?fcs n = Own fc"
    using own by simp_all
  from subset_of_own [OF ownH] cH
  have h: "h = sum_list (map (commitmentOf ?fcs) [''email'', ''phone''])" by simp
  from own_sum_pos [OF pos ownH] h have h0: "h \<noteq> 0" by simp
  have subV: "set [''name''] \<subseteq> fst ` set ?R" by simp
  from honest_openings [OF cr d subV] fl rc
  have f: "f = sum_list (map (commitmentOf ?fcs) [''name''])" by auto
  from own_sum_pos [OF pos ownV] f have f0: "f \<noteq> 0" by simp
  from v h0 f0 obtain res where
    res: "verifyPartition testExt (Point (recordCommitment cr)) (Point h) (Point f) = Inr res"
      "valid res"
    by blast
  show ?thesis
    apply (rule exI [of _ cr], rule exI [of _ filtered], rule exI [of _ openings],
        rule exI [of _ h], rule exI [of _ f], rule exI [of _ ds], rule exI [of _ res])
    apply (intro conjI)
            apply (rule cr)
           apply (rule fl)
          apply (rule names)
         apply (rule cH)
        apply (rule rc)
       apply (rule h0)
      apply (rule f0)
     apply (rule res(1))
    apply (rule res(2))
    done
qed

theorem honest_partition_counterexample:
  "\<exists>cr filtered openings f ds.
     commitRecord testExt 0 [(''name'', ''Ahmed'')] = (Inr cr, 1) \<and>
     filterLoop [(''name'', ''Ahmed'')] (fieldCommitments cr) [''name''] ([], []) =
       Inr (filtered, openings) \<and>
     map o_fieldName openings = [''name''] \<and>
     computeSubsetCommitment (fieldCommitments cr) [] =
       Inr \<lparr>subsetCommitment = Null, included = []\<rparr> \<and>
     recomputeCommitment testExt openings = Inr \<lparr>recomputed = Point f, details = ds\<rparr> \<and>
     recordCommitment cr = f \<and>
     verifyPartition testExt (Point (recordCommitment cr)) Null (Point f) = Inl TypeError"
proof -
  let ?R = "[(''name'', ''Ahmed'')]"
  have "?R \<noteq> []" "0 + length ?R < 100000"
    "\<forall>e \<in> set ?R. length (fst e) + length (snd e) < 99000"
    by simp_all
  from testExt_commitRecord [OF this]
  obtain cr where cr: "commitRecord testExt 0 ?R = (Inr cr, 1)" by auto
  let ?fcs = "fieldCommitments cr"
  have d: "distinct (map fst ?R)" by simp
  have subV: "set [''name''] \<subseteq> fst ` set ?R" by simp
  from honest_openings [OF cr d subV]
  obtain filtered ds where
    fl: "filterLoop ?R ?fcs [''name''] ([], []) = Inr (filtered, map (honestOpening ?R ?fcs) [''name''])" and
    rc: "recomputeCommitment testExt (map (honestOpening ?R ?fcs) [''name'']) =
           Inr \<lparr>recomputed = Point (sum_list (map (commitmentOf ?fcs) [''name''])), details = ds\<rparr>"
    by auto
  from commitRecord_sum(1) [OF cr d]
  have eq: "recordCommitment cr = sum_list (map (commitmentOf ?fcs) [''name''])" by simp
  have empty: "computeSubsetCommitment ?fcs [] = Inr \<lparr>subsetCommitment = Null, included = []\<rparr>"
    by (simp add: computeSubsetCommitment_def)
  have v: "verifyPartition testExt (Point (recordCommitment cr)) Null
             (Point (sum_list (map (commitmentOf ?fcs) [''name'']))) = Inl TypeError"
    by (simp add: verifyPartition_def pointAdd_def)
  show ?thesis
    apply (rule exI [of _ cr], rule exI [of _ filtered],
        rule exI [of _ "map (honestOpening ?R ?fcs) [''name'']"],
        rule exI [of _ "sum_list (map (commitmentOf ?fcs) [''name''])"], rule exI [of _ ds])
    apply (intro conjI)
          apply (rule cr)
         apply (rule fl)
        apply (rule honestOpening_names)
       apply (rule empty)
      apply (rule rc)
     apply (rule eq)
    apply (rule v)
    done
qed

section \<open>The hashed message\<close>

lemma message_names_free:
  assumes "CHR ''|'' \<notin> set n1" and "CHR ''|'' \<notin> set n2"
    and "n1 @ ''||'' @ v1 = n2 @ ''||'' @ v2"
  shows "n1 = n2 \<and> v1 = v2"
proof -
  have tw: "takeWhile (\<lambda>c. c \<noteq> CHR ''|'') (n @ ''||'' @ v) = n" if "CHR ''|'' \<notin> set n" for n v
    using that by (induction n) auto
  from tw [OF assms(1), of v1] tw [OF assms(2), of v2] assms(3) have "n1 = n2" by simp
  with assms(3) show ?thesis by simp
qed

lemma message_values_free:
  assumes "CHR ''|'' \<notin> set v1" and "CHR ''|'' \<notin> set v2"
    and "n1 @ ''||'' @ v1 = n2 @ ''||'' @ v2"
  shows "n1 = n2 \<and> v1 = v2"
proof -
  from assms(3) have "rev (n1 @ ''||'' @ v1) = rev (n2 @ ''||'' @ v2)" by simp
  then have "rev v1 @ ''||'' @ rev n1 = rev v2 @ ''||'' @ rev n2" by simp
  with message_names_free [of "rev v1" "rev v2" "rev n1" "rev n2"] assms(1,2)
  show ?thesis by simp
qed

text \<open>
  Claim C7 (separator non-collision), as the code has it. The message that
  \<^verbatim>\<open>commitField\<close> hashes is \<open>commitMessage n v\<close>: the name, the two characters
  \<^verbatim>\<open>||\<close> and the value. Two (name, value) pairs with the same message are the same
  pair provided that neither name contains the character \<^verbatim>\<open>|\<close>, or that neither value
  does. Without that the encoding collides, as for (a, b||c) and (a||b, c).
\<close>

theorem separator_injective:
  assumes "(CHR ''|'' \<notin> set n1 \<and> CHR ''|'' \<notin> set n2) \<or> (CHR ''|'' \<notin> set v1 \<and> CHR ''|'' \<notin> set v2)"
    and "commitMessage n1 v1 = commitMessage n2 v2"
  shows "n1 = n2 \<and> v1 = v2"
proof -
  from assms(2) have eq: "n1 @ ''||'' @ v1 = n2 @ ''||'' @ v2"
    by (simp add: commitMessage_def)
  from assms(1) show ?thesis
  proof
    assume "CHR ''|'' \<notin> set n1 \<and> CHR ''|'' \<notin> set n2"
    then show ?thesis using message_names_free [OF _ _ eq] by simp
  next
    assume "CHR ''|'' \<notin> set v1 \<and> CHR ''|'' \<notin> set v2"
    then show ?thesis using message_values_free [OF _ _ eq] by simp
  qed
qed

theorem separator_injective_witness:
  "commitMessage ''taxRecords'' ''180,000 SAR | 4,500 SAR'' \<noteq>
   commitMessage ''bankAccount'' ''SA44 | 4,500 SAR''"
proof
  assume eq: "commitMessage ''taxRecords'' ''180,000 SAR | 4,500 SAR'' =
              commitMessage ''bankAccount'' ''SA44 | 4,500 SAR''"
  have sep: "(CHR ''|'' \<notin> set ''taxRecords'' \<and> CHR ''|'' \<notin> set ''bankAccount'') \<or>
      (CHR ''|'' \<notin> set ''180,000 SAR | 4,500 SAR'' \<and> CHR ''|'' \<notin> set ''SA44 | 4,500 SAR'')"
    by simp
  from separator_injective [OF sep eq] show False by simp
qed

theorem separator_collision_counterexample:
  "(''a'', ''b||c'') \<noteq> (''a||b'', ''c'')
   \<and> commitMessage ''a'' ''b||c'' = commitMessage ''a||b'' ''c''
   \<and> (\<exists>fc1 fc2. commitField testExt 0 ''a'' ''b||c'' (Some 1) = (Inr fc1, 0) \<and>
                 commitField testExt 0 ''a||b'' ''c'' (Some 1) = (Inr fc2, 0) \<and>
                 math_message (math fc1) = math_message (math fc2) \<and>
                 fcCommitment fc1 = 31 \<and> fcCommitment fc2 = 31)"
proof -
  have g: "pointMul (ec_g testExt) (hashToScalar testExt (commitMessage n v)) =
           int (length (commitMessage n v))" if "length (commitMessage n v) < 100000" for n v
    using testExt_hash [OF that] by (simp add: testExt_def pointMul_int)
  have h: "pointMul (ec_h testExt) 1 = 24" by (simp add: testExt_h)
  have m1: "pointMul (ec_g testExt) (hashToScalar testExt (commitMessage ''a'' ''b||c'')) = 7"
    by (subst g) (simp_all add: commitMessage_def)
  have m2: "pointMul (ec_g testExt) (hashToScalar testExt (commitMessage ''a||b'' ''c'')) = 7"
    by (subst g) (simp_all add: commitMessage_def)
  have r: "(1::nat) = (case Some 1 of Some r' \<Rightarrow> r' | None \<Rightarrow> fst (randomScalar testExt 0))"
    by simp
  from commitField_returns_any [OF r, of "''a''" "''b||c''"] m1 h
  obtain fc1 where fc1: "commitField testExt 0 ''a'' ''b||c'' (Some 1) = (Inr fc1, 0)" by auto
  from commitField_returns_any [OF r, of "''a||b''" "''c''"] m2 h
  obtain fc2 where fc2: "commitField testExt 0 ''a||b'' ''c'' (Some 1) = (Inr fc2, 0)" by auto
  note d1 = commitField_InrD [OF fc1] and d2 = commitField_InrD [OF fc2]
  from d1(3) d2(3) have r1: "randomness fc1 = 1" and r2: "randomness fc2 = 1" by simp_all
  from d1(1) m1 h r1 have c1: "fcCommitment fc1 = 31" by simp
  from d2(1) m2 h r2 have c2: "fcCommitment fc2 = 31" by simp
  have msg: "commitMessage ''a'' ''b||c'' = commitMessage ''a||b'' ''c''"
    by (simp add: commitMessage_def)
  from d1(6) d2(6) msg have mm: "math_message (math fc1) = math_message (math fc2)" by simp
  have ne: "(''a'', ''b||c'') \<noteq> (''a||b'', ''c'')" by simp
  from fc1 fc2 mm c1 c2 msg ne show ?thesis by blast
qed

section \<open>The server: what Issue and Dispense compute\<close>

lemma sortFields_idem: "sortFields (sortFields pol) = sortFields pol"
  by (simp add: sortFields_def sorted_sort_id)

lemma commitRecord_Nil: "commitRecord E rng [] = (Inl TypeError, rng)"
  by (simp add: commitRecord_def)

lemma serializePoint_Inr: "P \<noteq> 0 \<Longrightarrow> \<exists>sp. serializePoint E (Point P) = Inr sp"
  using xy_Inr [of P E] by (auto simp: serializePoint_def)

lemma tokenCreate_SuccessD:
  assumes "tokenCreate E now s req = (s', Success r)"
  shows "\<exists>rec pol cr rng'.
           citizenDB (citizenId req) = Some rec \<and>
           catalog s (policyId req) = Some pol \<and>
           commitRecord E (Suc (rngCounter s)) rec = (Inr cr, rng') \<and>
           catalog s' = (catalog s)(policyId req \<mapsto> sortFields pol) \<and>
           rngCounter s' = rng' \<and>
           tokenStore s' = (tokenStore s)(tokenId r \<mapsto>
             \<lparr>st_citizenId = citizenId req, st_policyId = policyId req, st_record = rec,
              st_policy = policyId req, st_fieldCommitments = fieldCommitments cr,
              st_recordCommitment = recordCommitment cr, createdAt = now\<rparr>) \<and>
           tokenId r = padStart 32 CHR ''0'' (toString16 (randomBytes E (rngCounter s) 16 mod 256 ^ 16)) \<and>
           token r = jwtSign E
             \<lparr>jti = tokenId r, sub = take 16 (sha256hex E (citizenId req)),
              policy = policyId req, policyHash = take 32 (cr_policyHash r),
              commitment = compressed (cr_recordCommitment r),
              actions = allowedActions pol\<rparr>
             (case expiresIn req of None \<Rightarrow> 3600 | Some t \<Rightarrow> t) \<and>
           serializePoint E (Point (recordCommitment cr)) = Inr (cr_recordCommitment r) \<and>
           cr_policyHash r =
             computePolicyHash E (sort (visibleFields pol)) (sort (hiddenFields pol)) \<and>
           cr_visibleFields r = sort (visibleFields pol) \<and>
           cr_hiddenFields r = sort (hiddenFields pol)"
proof -
  from assms obtain rec where rec: "memberGet citizenDB (citizenId req) = Own rec"
    by (cases "memberGet citizenDB (citizenId req)")
       (auto simp: tokenCreate_def Let_def commitRecord_Nil
          split: lookup.splits prod.splits sum.splits)
  from assms obtain pol where pol: "memberGet (catalog s) (policyId req) = Own pol"
    by (cases "memberGet (catalog s) (policyId req)")
       (auto simp: tokenCreate_def Let_def
          split: lookup.splits prod.splits sum.splits)
  obtain res rng' where c: "commitRecord E (Suc (rngCounter s)) rec = (res, rng')"
    by (cases "commitRecord E (Suc (rngCounter s)) rec")
  from assms rec pol c obtain cr where cr: "res = Inr cr"
    by (cases res) (auto simp: tokenCreate_def Let_def)
  from assms rec pol c cr obtain sp where
    sp: "serializePoint E (Point (recordCommitment cr)) = Inr sp"
    by (cases "serializePoint E (Point (recordCommitment cr))")
       (auto simp: tokenCreate_def Let_def)
  from assms rec pol c cr sp show ?thesis
    by (auto simp: tokenCreate_def Let_def sortFields_def memberGet_Own_iff)
qed

lemma tokenCreate_returns:
  assumes "citizenDB (citizenId req) = Some rec"
    and "catalog s (policyId req) = Some pol"
    and "commitRecord E (Suc (rngCounter s)) rec = (Inr cr, rng')"
  shows "\<exists>s' r. tokenCreate E now s req = (s', Success r)"
proof -
  from commitRecord_InrD [OF assms(3)] have "recordCommitment cr \<noteq> 0" by blast
  from serializePoint_Inr [OF this, of E] obtain sp where
    "serializePoint E (Point (recordCommitment cr)) = Inr sp" ..
  with assms show ?thesis
    by (simp add: tokenCreate_def Let_def memberGet_Some)
qed

lemma tokenCreate_catalog:
  "catalog (fst (tokenCreate E now s req)) pid = catalog s pid \<or>
   (pid = policyId req \<and>
    catalog (fst (tokenCreate E now s req)) pid = map_option sortFields (catalog s pid))"
  by (auto simp: tokenCreate_def Let_def sortFields_def memberGet_def
      split: option.splits prod.splits sum.splits lookup.splits if_splits)

lemma issueAll_catalog:
  "catalog (issueAll E s reqs) pid = catalog s pid \<or>
   catalog (issueAll E s reqs) pid = map_option sortFields (catalog s pid)"
proof (induction reqs arbitrary: s)
  case Nil
  then show ?case by simp
next
  case (Cons a reqs)
  obtain now req where a: "a = (now, req)" by (cases a)
  let ?s1 = "fst (tokenCreate E now s req)"
  from Cons.IH [of ?s1] tokenCreate_catalog [of E now s req pid]
  show ?case
    by (cases "catalog s pid") (auto simp: a sortFields_idem)
qed

lemma issueAll_catalog_sorted:
  assumes "catalog s pid = Some (sortFields pol)"
  shows "catalog (issueAll E s reqs) pid = Some (sortFields pol)"
  using issueAll_catalog [of E s reqs pid] assms by (auto simp: sortFields_idem)

lemma sort_set_unique:
  fixes xs ys :: "string list"
  assumes "distinct xs" and "distinct ys" and "set xs = set ys"
  shows "sort xs = sort ys"
  by (rule sorted_distinct_set_unique) (simp_all add: assms)

lemma filterLoop_filtered:
  "filterLoop rec fcs names (fd, os) = Inr (fd', os') \<Longrightarrow>
   fst ` set fd' =
     fst ` set fd \<union>
     (set (filter (\<lambda>n. memberGet (map_of rec) n \<noteq> Absent) names) - {''__proto__''}) \<and>
   (\<forall>k. map_of fd' k =
      (if k \<in> set (filter (\<lambda>n. memberGet (map_of rec) n \<noteq> Absent) names) \<and> k \<noteq> ''__proto__''
       then map_of rec k else map_of fd k))"
proof (induction names arbitrary: fd os)
  case Nil
  then show ?case by simp
next
  case (Cons n names)
  show ?case
  proof (cases "memberGet (map_of rec) n")
    case Absent
    with Cons show ?thesis by simp
  next
    case (Inherited t)
    with Cons.prems show ?thesis by simp
  next
    case (Own v)
    then have v: "map_of rec n = Some v" by (simp add: memberGet_Own_iff)
    from Cons.prems Own obtain fc where fc: "getFC fcs n = Own fc"
      by (cases "getFC fcs n") auto
    let ?fd1 = "if n = ''__proto__'' then fd else AList.update n v fd"
    from Cons.prems Own fc
    have "filterLoop rec fcs names
            (?fd1,
             os @ [\<lparr>o_fieldName = n, o_value = v, o_randomness = serializeBN (randomness fc)\<rparr>])
          = Inr (fd', os')"
      by simp
    note ih = Cons.IH [OF this]
    show ?thesis
    proof (cases "n = ''__proto__''")
      case True
      with ih Own show ?thesis by auto
    next
      case False
      with ih Own v show ?thesis
        by (auto simp: dom_update update_conv')
    qed
  qed
qed

lemma filterLoop_cong:
  "\<forall>n \<in> set names. map_lookup randomness (getFC fcs' n) = map_lookup randomness (getFC fcs n) \<Longrightarrow>
   filterLoop rec fcs' names acc = filterLoop rec fcs names acc"
proof (induction names arbitrary: acc)
  case Nil
  then show ?case by simp
next
  case (Cons n names)
  obtain fd os where acc: "acc = (fd, os)" by (cases acc)
  from Cons.prems have hd: "map_lookup randomness (getFC fcs' n) = map_lookup randomness (getFC fcs n)"
    and tl: "\<forall>n \<in> set names. map_lookup randomness (getFC fcs' n) = map_lookup randomness (getFC fcs n)"
    by simp_all
  note ih = Cons.IH [OF tl]
  show ?case
  proof (cases "memberGet (map_of rec) n")
    case Absent
    with ih acc show ?thesis by simp
  next
    case (Inherited t)
    with acc show ?thesis by simp
  next
    case (Own v)
    show ?thesis
    proof (cases "getFC fcs n")
      case (Own fc)
      with hd obtain fc' where "getFC fcs' n = Own fc'" "randomness fc' = randomness fc"
        by (cases "getFC fcs' n") auto
      with Own \<open>memberGet (map_of rec) n = Own v\<close> acc ih show ?thesis by simp
    next
      case (Inherited t)
      with hd have "getFC fcs' n = Inherited t" by (cases "getFC fcs' n") auto
      with Inherited \<open>memberGet (map_of rec) n = Own v\<close> acc show ?thesis by simp
    next
      case Absent
      with hd have "getFC fcs' n = Absent" by (cases "getFC fcs' n") auto
      with Absent \<open>memberGet (map_of rec) n = Own v\<close> acc show ?thesis by simp
    qed
  qed
qed

lemma computeSubsetLoop_cong:
  "\<forall>n. map_lookup fcCommitment (getFC fcs' n) = map_lookup fcCommitment (getFC fcs n) \<Longrightarrow>
   computeSubsetLoop fcs' names acc = computeSubsetLoop fcs names acc"
proof (induction names arbitrary: acc)
  case Nil
  then show ?case by simp
next
  case (Cons n names)
  from Cons.prems have hd: "map_lookup fcCommitment (getFC fcs' n) = map_lookup fcCommitment (getFC fcs n)"
    by simp
  note ih = Cons.IH [OF Cons.prems]
  show ?case
  proof (cases "getFC fcs n")
    case (Own fc)
    with hd obtain fc' where "getFC fcs' n = Own fc'" "fcCommitment fc' = fcCommitment fc"
      by (cases "getFC fcs' n") auto
    with Own ih show ?thesis by (simp split: sum.splits)
  next
    case (Inherited t)
    with hd have "getFC fcs' n = Inherited t" by (cases "getFC fcs' n") auto
    with Inherited ih show ?thesis by (simp split: sum.splits)
  next
    case Absent
    with hd have "getFC fcs' n = Absent" by (cases "getFC fcs' n") auto
    with Absent ih show ?thesis by simp
  qed
qed

lemma dispense_SuccessD:
  assumes "dispense E s tok = Success d"
    and "jwtVerify E tok = Some payload"
    and "tokenStore s (jti payload) = Some st"
    and "catalog s (st_policy st) = Some pol"
  shows "\<exists>fd os. filterLoop (st_record st) (st_fieldCommitments st) (visibleFields pol) ([], [])
                   = Inr (fd, os) \<and>
           filteredRecord d = fd \<and> pr_visibleFields (dd_proof d) = os \<and>
           hiddenFieldCount (dd_proof d) =
             length (filter (\<lambda>f. memberGet (map_of (st_record st)) f \<noteq> Absent) (hiddenFields pol))"
proof -
  from assms(4) have pol: "memberGet (catalog s) (st_policy st) = Own pol" by (rule memberGet_Some)
  from assms(1,2,3) pol show ?thesis
    by (auto simp: dispense_def Let_def split: sum.splits prod.splits)
qed

lemma dispense_returns:
  assumes "jwtVerify E tok = Some payload"
    and "tokenStore s (jti payload) = Some st"
    and "catalog s (st_policy st) = Some pol"
    and "filterLoop (st_record st) (st_fieldCommitments st) (visibleFields pol) ([], []) = Inr (fd, os)"
    and "computeSubsetCommitment (st_fieldCommitments st)
           (filter (\<lambda>f. memberGet (map_of (st_record st)) f \<noteq> Absent) (hiddenFields pol)) =
         Inr \<lparr>subsetCommitment = Point h, included = inclH\<rparr>"
    and "computeSubsetCommitment (st_fieldCommitments st)
           (filter (\<lambda>f. memberGet (map_of (st_record st)) f \<noteq> Absent) (visibleFields pol)) =
         Inr \<lparr>subsetCommitment = Point f, included = inclV\<rparr>"
    and "st_recordCommitment st \<noteq> 0" and "h \<noteq> 0" and "f \<noteq> 0" and "h + f \<noteq> 0"
  shows "\<exists>d. dispense E s tok = Success d \<and> filteredRecord d = fd \<and>
           pr_visibleFields (dd_proof d) = os"
proof -
  from assms(3) have pol: "memberGet (catalog s) (st_policy st) = Own pol" by (rule memberGet_Some)
  from verifyPartition_points [OF assms(7,8,9,10), of E] obtain vm where
    v: "verifyPartition E (Point (st_recordCommitment st)) (Point h) (Point f) =
          Inr \<lparr>valid = (st_recordCommitment st = h + f), verify_math = vm\<rparr>" ..
  from serializePoint_Inr [OF assms(7), of E] obtain sD where
    sD: "serializePoint E (Point (st_recordCommitment st)) = Inr sD" ..
  from serializePoint_Inr [OF assms(8), of E] obtain sH where
    sH: "serializePoint E (Point h) = Inr sH" ..
  from serializePoint_Inr [OF assms(9), of E] obtain sF where
    sF: "serializePoint E (Point f) = Inr sF" ..
  from assms(1,2) pol assms(4,5,6) v sD sH sF show ?thesis
    by (simp add: dispense_def Let_def)
qed

lemma dispense_succeeds:
  assumes "jwtVerify E tok = Some payload"
    and "tokenStore s (jti payload) = Some st"
    and "catalog s (st_policy st) = Some pol"
    and "V = filter (\<lambda>f. memberGet (map_of (st_record st)) f \<noteq> Absent) (visibleFields pol)"
    and "H = filter (\<lambda>f. memberGet (map_of (st_record st)) f \<noteq> Absent) (hiddenFields pol)"
    and "V \<noteq> []" and "H \<noteq> []"
    and "\<forall>n \<in> set V. \<exists>v. map_of (st_record st) n = Some v"
    and "\<forall>n \<in> set V \<union> set H. \<exists>fc. getFC (st_fieldCommitments st) n = Own fc"
    and "st_recordCommitment st \<noteq> 0"
    and "sum_list (map (commitmentOf (st_fieldCommitments st)) H) \<noteq> 0"
    and "sum_list (map (commitmentOf (st_fieldCommitments st)) V) \<noteq> 0"
    and "sum_list (map (commitmentOf (st_fieldCommitments st)) H) +
         sum_list (map (commitmentOf (st_fieldCommitments st)) V) \<noteq> 0"
  shows "\<exists>d. dispense E s tok = Success d \<and>
           fst ` set (filteredRecord d) = set V - {''__proto__''} \<and>
           (\<forall>k \<in> set V - {''__proto__''}. map_of (filteredRecord d) k = map_of (st_record st) k) \<and>
           map o_fieldName (pr_visibleFields (dd_proof d)) = V \<and>
           hiddenFieldCount (dd_proof d) = length H"
proof -
  let ?rec = "st_record st" and ?fcs = "st_fieldCommitments st"
  from assms(4,8,9)
  have "\<forall>n \<in> set (visibleFields pol). memberGet (map_of ?rec) n \<noteq> Absent \<longrightarrow>
          (\<exists>v. map_of ?rec n = Some v) \<and> (\<exists>fc. getFC ?fcs n = Own fc)"
    by auto
  from filterLoop_returns [OF this]
  obtain fd os where fl: "filterLoop ?rec ?fcs (visibleFields pol) ([], []) = Inr (fd, os)"
    by (metis surj_pair)
  from assms(9) have pV: "\<forall>n \<in> set V. \<exists>fc. getFC ?fcs n = Own fc"
    and pH: "\<forall>n \<in> set H. \<exists>fc. getFC ?fcs n = Own fc"
    by auto
  note h = subset_of_own [OF pH assms(7), unfolded assms(5)]
  note f = subset_of_own [OF pV assms(6), unfolded assms(4)]
  from dispense_returns [OF assms(1,2,3) fl h f assms(10)]
    assms(11,12,13) [unfolded assms(4,5)]
  obtain d where d: "dispense E s tok = Success d" "filteredRecord d = fd"
    "pr_visibleFields (dd_proof d) = os"
    by blast
  from dispense_SuccessD [OF d(1) assms(1,2,3)] assms(5)
  have cnt: "hiddenFieldCount (dd_proof d) = length H" by simp
  from filterLoop_openings [OF fl] assms(4)
  have "map o_fieldName os = V"
    by (simp add: honestOpening_def comp_def)
  moreover from filterLoop_filtered [OF fl] assms(4)
  have "fst ` set fd = set V - {''__proto__''}"
    and "\<forall>k \<in> set V - {''__proto__''}. map_of fd k = map_of ?rec k"
    by simp_all
  ultimately show ?thesis using d cnt by simp
qed

lemma padStart_nonempty: "0 < k \<Longrightarrow> padStart k c s \<noteq> []"
  by (cases s) (simp_all add: padStart_def)

lemma padded_hex_inj:
  "padStart k CHR ''0'' (toString16 a) = padStart k CHR ''0'' (toString16 b) \<Longrightarrow> a = b"
proof -
  assume "padStart k CHR ''0'' (toString16 a) = padStart k CHR ''0'' (toString16 b)"
  then have "hexNumber (padStart k CHR ''0'' (toString16 a)) =
             hexNumber (padStart k CHR ''0'' (toString16 b))"
    by simp
  then show ?thesis by (simp add: hexNumber_padStart hexNumber_toString16)
qed

lemma getFC_ownProps_update:
  "n \<noteq> k \<Longrightarrow> getFC (obj\<lparr>ownProps := (ownProps obj)(k \<mapsto> fc)\<rparr>) n = getFC obj n"
proof -
  assume "n \<noteq> k"
  then have o: "ownProps (obj\<lparr>ownProps := (ownProps obj)(k \<mapsto> fc)\<rparr>) n = ownProps obj n"
    by simp
  have p: "protoObject (obj\<lparr>ownProps := (ownProps obj)(k \<mapsto> fc)\<rparr>) = protoObject obj"
    by simp
  show ?thesis unfolding getFC_def o p ..
qed

lemma getFC_ownProps_update_same:
  "getFC (obj\<lparr>ownProps := (ownProps obj)(k \<mapsto> fc)\<rparr>) k = Own fc"
  by (simp add: getFC_def)

subsection \<open>The model on the source's database and catalog\<close>

lemma testExt_token:
  assumes "tokenCreate testExt now s req = (s', Success r)"
  shows "jwtVerify testExt (token r) =
           Some \<lparr>jti = tokenId r, sub = [], policy = [], policyHash = [], commitment = [],
                 actions = []\<rparr>"
proof -
  from tokenCreate_SuccessD [OF assms]
  obtain p ttl n where "token r = jwtSign testExt p ttl" "jti p = tokenId r"
    "tokenId r = padStart 32 CHR ''0'' n"
    by force
  then have "token r = tokenId r" and "tokenId r \<noteq> []"
    by (simp_all add: testExt_def padStart_nonempty)
  then show ?thesis by (simp add: testExt_def)
qed

lemma citizen_keys:
  "citizenDB ''citizen-001'' = Some rec \<Longrightarrow>
   distinct (map fst rec) \<and>
   map fst rec = [''name'', ''nationalId'', ''dateOfBirth'', ''address'', ''phone'', ''email'',
                  ''taxRecords'', ''bankAccount'', ''medicalHistory'', ''propertyRecords'']"
  by (auto simp: citizenDB_def)

lemma citizen_lookup:
  assumes "citizenDB ''citizen-001'' = Some rec"
  shows "map_of rec ''name'' = Some ''Ahmed Ali Mohammed''"
    and "rec \<noteq> []"
    and "length rec = 10"
    and "\<forall>e \<in> set rec. length (fst e) + length (snd e) < 99000"
    and "''__proto__'' \<notin> fst ` set rec"
    and "''email'' \<in> fst ` set rec"
  using assms by (auto simp: citizenDB_def)

lemma citizen_exists: "\<exists>rec. citizenDB ''citizen-001'' = Some rec"
  by (simp add: citizenDB_def)

lemma expectedPoints_shift:
  "sum_list (expectedPoints b R) = sum_list (expectedPoints a R) + 168 * (int b - int a) * int (length R)"
proof (induction R arbitrary: a b)
  case Nil
  then show ?case by simp
next
  case (Cons e R)
  obtain n v where e: "e = (n, v)" by (cases e)
  from Cons.IH [of "Suc b" "Suc a"] show ?case
    by (simp add: e fieldPoint_def algebra_simps)
qed

lemma testExt_run:
  assumes "catalog s pid = Some pol" and "rngCounter s < 90000"
    and "citizenDB ''citizen-001'' = Some rec"
    and "set (visibleFields pol) \<union> set (hiddenFields pol) \<subseteq> fst ` set rec"
    and "visibleFields pol \<noteq> []" and "hiddenFields pol \<noteq> []"
  obtains s1 r1 payload st where
    "tokenCreate testExt now s (demoRequest pid) = (s1, Success r1)"
    "jwtVerify testExt (token r1) = Some payload"
    "tokenStore s1 (jti payload) = Some st"
    "catalog s1 (st_policy st) = Some (sortFields pol)"
    "sort (visibleFields pol) =
       filter (\<lambda>f. memberGet (map_of (st_record st)) f \<noteq> Absent) (visibleFields (sortFields pol))"
    "sort (hiddenFields pol) =
       filter (\<lambda>f. memberGet (map_of (st_record st)) f \<noteq> Absent) (hiddenFields (sortFields pol))"
    "sort (visibleFields pol) \<noteq> []" "sort (hiddenFields pol) \<noteq> []"
    "\<forall>n \<in> set (sort (visibleFields pol)). \<exists>v. map_of (st_record st) n = Some v"
    "\<forall>n \<in> set (sort (visibleFields pol)) \<union> set (sort (hiddenFields pol)).
        \<exists>fc. getFC (st_fieldCommitments st) n = Own fc"
    "st_recordCommitment st \<noteq> 0"
    "sum_list (map (commitmentOf (st_fieldCommitments st)) (sort (hiddenFields pol))) \<noteq> 0"
    "sum_list (map (commitmentOf (st_fieldCommitments st)) (sort (visibleFields pol))) \<noteq> 0"
    "sum_list (map (commitmentOf (st_fieldCommitments st)) (sort (hiddenFields pol))) +
     sum_list (map (commitmentOf (st_fieldCommitments st)) (sort (visibleFields pol))) \<noteq> 0"
    "st_record st = rec" "st_policy st = pid" "jti payload = tokenId r1"
    "catalog s1 = (catalog s)(pid \<mapsto> sortFields pol)"
    "rngCounter s1 = rngCounter s + 11"
    "tokenId r1 = padStart 32 CHR ''0'' (toString16 ((7 * rngCounter s + 3) mod 256 ^ 16))"
    "serializePoint testExt (Point (sum_list (expectedPoints (Suc (rngCounter s)) rec))) =
       Inr (cr_recordCommitment r1)"
proof -
  note c = citizen_lookup [OF assms(3)]
  from citizen_keys [OF assms(3)] have d: "distinct (map fst rec)" by simp
  have small: "Suc (rngCounter s) + length rec < 100000" using assms(2) c(3) by simp
  from testExt_commitRecord [OF c(2) small c(4)]
  obtain cr where cr: "commitRecord testExt (Suc (rngCounter s)) rec = (Inr cr, Suc (rngCounter s) + length rec)"
    and rc: "recordCommitment cr = sum_list (expectedPoints (Suc (rngCounter s)) rec)"
    and pos: "\<forall>n fc. getFC (fieldCommitments cr) n = Own fc \<longrightarrow> 0 < fcCommitment fc"
    by blast
  have cid: "citizenDB (citizenId (demoRequest pid)) = Some rec"
    by (simp add: demoRequest_def assms(3))
  have cat: "catalog s (policyId (demoRequest pid)) = Some pol"
    by (simp add: demoRequest_def assms(1))
  from tokenCreate_returns [OF cid cat cr, of now]
  obtain s1 r1 where tc: "tokenCreate testExt now s (demoRequest pid) = (s1, Success r1)"
    by blast
  note jv = testExt_token [OF tc]
  let ?st = "\<lparr>st_citizenId = citizenId (demoRequest pid), st_policyId = policyId (demoRequest pid),
              st_record = rec, st_policy = policyId (demoRequest pid),
              st_fieldCommitments = fieldCommitments cr,
              st_recordCommitment = recordCommitment cr, createdAt = now\<rparr>"
  from tokenCreate_SuccessD [OF tc] cid cat cr
  have cat1: "catalog s1 = (catalog s)(pid \<mapsto> sortFields pol)"
    and rng1: "rngCounter s1 = rngCounter s + 11"
    and store: "tokenStore s1 = (tokenStore s)(tokenId r1 \<mapsto> ?st)"
    and tid: "tokenId r1 = padStart 32 CHR ''0''
                (toString16 (randomBytes testExt (rngCounter s) 16 mod 256 ^ 16))"
    and sp: "serializePoint testExt (Point (recordCommitment cr)) = Inr (cr_recordCommitment r1)"
    using c(3) by (auto simp: demoRequest_def)
  let ?fcs = "fieldCommitments cr"
  let ?V = "sort (visibleFields pol)" and ?H = "sort (hiddenFields pol)"
  from assms(4) have subV: "set ?V \<subseteq> fst ` set rec" and subH: "set ?H \<subseteq> fst ` set rec"
    by simp_all
  have val: "\<exists>v. map_of rec n = Some v" if "n \<in> fst ` set rec" for n
    using that by (cases "map_of rec n") (auto simp: map_of_eq_None_iff)
  have own: "\<exists>fc. getFC ?fcs n = Own fc" if "n \<in> fst ` set rec" for n
  proof -
    from that obtain v where "(n, v) \<in> set rec" by auto
    from commitRecord_entries [OF cr d this] show ?thesis by blast
  qed
  have present: "memberGet (map_of rec) n \<noteq> Absent" if "n \<in> fst ` set rec" for n
    using val [OF that] by (auto simp: memberGet_def)
  from subV present have fV: "filter (\<lambda>f. memberGet (map_of rec) f \<noteq> Absent) ?V = ?V"
    by (auto simp: filter_id_conv simp del: set_sort)
  from subH present have fH: "filter (\<lambda>f. memberGet (map_of rec) f \<noteq> Absent) ?H = ?H"
    by (auto simp: filter_id_conv simp del: set_sort)
  from assms(5) have neV: "?V \<noteq> []" by (metis set_sort set_empty)
  from assms(6) have neH: "?H \<noteq> []" by (metis set_sort set_empty)
  from subV own have ownV: "\<forall>n \<in> set ?V. \<exists>fc. getFC ?fcs n = Own fc" by blast
  from subH own have ownH: "\<forall>n \<in> set ?H. \<exists>fc. getFC ?fcs n = Own fc" by blast
  from own_sum_pos [OF pos ownH neH] have pH: "0 < sum_list (map (commitmentOf ?fcs) ?H)" .
  from own_sum_pos [OF pos ownV neV] have pV: "0 < sum_list (map (commitmentOf ?fcs) ?V)" .
  show thesis
  proof (rule that [of s1 r1 "\<lparr>jti = tokenId r1, sub = [], policy = [], policyHash = [],
      commitment = [], actions = []\<rparr>" ?st])
    show "tokenCreate testExt now s (demoRequest pid) = (s1, Success r1)" by (rule tc)
    show "jwtVerify testExt (token r1) = Some \<lparr>jti = tokenId r1, sub = [], policy = [],
      policyHash = [], commitment = [], actions = []\<rparr>" by (rule jv)
    show "tokenStore s1 (jti \<lparr>jti = tokenId r1, sub = [], policy = [], policyHash = [],
      commitment = [], actions = []\<rparr>) = Some ?st"
      by (simp add: store)
    show "catalog s1 (st_policy ?st) = Some (sortFields pol)"
      by (simp add: cat1 demoRequest_def)
    show "?V = filter (\<lambda>f. memberGet (map_of (st_record ?st)) f \<noteq> Absent)
                 (visibleFields (sortFields pol))"
      using fV by (simp add: sortFields_def)
    show "?H = filter (\<lambda>f. memberGet (map_of (st_record ?st)) f \<noteq> Absent)
                 (hiddenFields (sortFields pol))"
      using fH by (simp add: sortFields_def)
    show "?V \<noteq> []" by (rule neV)
    show "?H \<noteq> []" by (rule neH)
    show "\<forall>n \<in> set ?V. \<exists>v. map_of (st_record ?st) n = Some v"
    proof
      fix n assume "n \<in> set ?V"
      with subV have "n \<in> fst ` set rec" by (rule subsetD)
      from val [OF this] show "\<exists>v. map_of (st_record ?st) n = Some v" by simp
    qed
    show "\<forall>n \<in> set ?V \<union> set ?H. \<exists>fc. getFC (st_fieldCommitments ?st) n = Own fc"
      using ownV ownH by (auto simp del: set_sort)
    show "st_recordCommitment ?st \<noteq> 0"
      using commitRecord_sum(3) [OF cr d] by simp
    show "sum_list (map (commitmentOf (st_fieldCommitments ?st)) ?H) \<noteq> 0" using pH by simp
    show "sum_list (map (commitmentOf (st_fieldCommitments ?st)) ?V) \<noteq> 0" using pV by simp
    show "sum_list (map (commitmentOf (st_fieldCommitments ?st)) ?H) +
          sum_list (map (commitmentOf (st_fieldCommitments ?st)) ?V) \<noteq> 0"
      using pH pV by simp
    show "st_record ?st = rec" by simp
    show "st_policy ?st = pid" by (simp add: demoRequest_def)
    show "jti \<lparr>jti = tokenId r1, sub = [], policy = [], policyHash = [],
      commitment = [], actions = []\<rparr> = tokenId r1" by simp
    show "catalog s1 = (catalog s)(pid \<mapsto> sortFields pol)" by (rule cat1)
    show "rngCounter s1 = rngCounter s + 11" by (rule rng1)
    show "tokenId r1 = padStart 32 CHR ''0'' (toString16 ((7 * rngCounter s + 3) mod 256 ^ 16))"
      using tid by (simp add: testExt_def)
    show "serializePoint testExt (Point (sum_list (expectedPoints (Suc (rngCounter s)) rec))) =
       Inr (cr_recordCommitment r1)"
      using sp rc by simp
  qed
qed

lemma demo_sorts:
  "sort [''name'', ''nationalId'', ''dateOfBirth'', ''address''] =
     [''address'', ''dateOfBirth'', ''name'', ''nationalId'']"
  "sort [''phone'', ''email'', ''taxRecords'', ''bankAccount'', ''medicalHistory'', ''propertyRecords''] =
     [''bankAccount'', ''email'', ''medicalHistory'', ''phone'', ''propertyRecords'', ''taxRecords'']"
  by code_simp+

lemma idrenewal_policy:
  "catalog (initialServer :: int server) ''id-renewal'' =
     Some \<lparr>p_name = ''National ID Renewal'',
           p_description = ''Access to basic identity information for ID renewal'',
           visibleFields = [''name'', ''nationalId'', ''dateOfBirth'', ''address''],
           hiddenFields = [''phone'', ''email'', ''taxRecords'', ''bankAccount'',
                           ''medicalHistory'', ''propertyRecords''],
           allowedActions = [''view_id_info'', ''submit_renewal_application'', ''upload_photo'']\<rparr>"
  by (simp add: initialServer_def POLICIES_def)

lemma nameonly_policy:
  "catalog (partialServer :: int server) ''name-only'' =
     Some \<lparr>p_name = ''Name only'', p_description = ''Leaves eight fields of the record out'',
           visibleFields = [''name''], hiddenFields = [''phone''],
           allowedActions = [''view_name'']\<rparr>"
  by (simp add: partialServer_def)

lemma id_renewal_json:
  \<open>policyJSON [''address'', ''dateOfBirth'', ''name'', ''nationalId'']
     [''bankAccount'', ''email'', ''medicalHistory'', ''phone'', ''propertyRecords'',
      ''taxRecords''] =
   ''{"visible":["address","dateOfBirth","name","nationalId"],"hidden":["bankAccount","email","medicalHistory","phone","propertyRecords","taxRecords"]}''\<close>
  by (simp add: policyJSON_def jsonArray_def jsonString_def jsonChar_def)

lemma sorted_demo_lists:
  assumes "citizenDB ''citizen-001'' = Some rec"
  shows "filter (\<lambda>f. map_of rec f \<noteq> None)
           [''address'', ''dateOfBirth'', ''name'', ''nationalId''] =
           [''address'', ''dateOfBirth'', ''name'', ''nationalId'']"
    and "set [''name'', ''nationalId'', ''dateOfBirth'', ''address''] \<union>
         set [''phone'', ''email'', ''taxRecords'', ''bankAccount'', ''medicalHistory'',
              ''propertyRecords''] \<subseteq> fst ` set rec"
    and "set [''name'', ''nationalId'', ''taxRecords'', ''bankAccount''] \<union>
         set [''dateOfBirth'', ''address'', ''phone'', ''email'', ''medicalHistory'',
              ''propertyRecords''] \<subseteq> fst ` set rec"
proof -
  from citizen_keys [OF assms]
  have keys: "map fst rec = [''name'', ''nationalId'', ''dateOfBirth'', ''address'', ''phone'',
      ''email'', ''taxRecords'', ''bankAccount'', ''medicalHistory'', ''propertyRecords'']"
    by simp
  have present: "map_of rec f \<noteq> None \<longleftrightarrow> f \<in> set (map fst rec)" for f
    by (simp add: map_of_eq_None_iff)
  show "filter (\<lambda>f. map_of rec f \<noteq> None)
           [''address'', ''dateOfBirth'', ''name'', ''nationalId''] =
           [''address'', ''dateOfBirth'', ''name'', ''nationalId'']"
    unfolding present keys by simp
  have "set [''name'', ''nationalId'', ''dateOfBirth'', ''address''] \<union>
         set [''phone'', ''email'', ''taxRecords'', ''bankAccount'', ''medicalHistory'',
              ''propertyRecords''] \<subseteq> set (map fst rec)"
    unfolding keys by simp
  then show "set [''name'', ''nationalId'', ''dateOfBirth'', ''address''] \<union>
         set [''phone'', ''email'', ''taxRecords'', ''bankAccount'', ''medicalHistory'',
              ''propertyRecords''] \<subseteq> fst ` set rec"
    by simp
  have "set [''name'', ''nationalId'', ''taxRecords'', ''bankAccount''] \<union>
         set [''dateOfBirth'', ''address'', ''phone'', ''email'', ''medicalHistory'',
              ''propertyRecords''] \<subseteq> set (map fst rec)"
    unfolding keys by simp
  then show "set [''name'', ''nationalId'', ''taxRecords'', ''bankAccount''] \<union>
         set [''dateOfBirth'', ''address'', ''phone'', ''email'', ''medicalHistory'',
              ''propertyRecords''] \<subseteq> fst ` set rec"
    by simp
qed

lemma idrenewal_request:
  "catalog (initialServer :: int server) (policyId (demoRequest ''id-renewal'')) =
     Some \<lparr>p_name = ''National ID Renewal'',
           p_description = ''Access to basic identity information for ID renewal'',
           visibleFields = [''name'', ''nationalId'', ''dateOfBirth'', ''address''],
           hiddenFields = [''phone'', ''email'', ''taxRecords'', ''bankAccount'',
                           ''medicalHistory'', ''propertyRecords''],
           allowedActions = [''view_id_info'', ''submit_renewal_application'', ''upload_photo'']\<rparr>"
  by (simp add: idrenewal_policy demoRequest_def)

lemma idrenewal_run:
  obtains s1 r1 payload st d rec where
    "tokenCreate testExt 0 initialServer (demoRequest ''id-renewal'') = (s1, Success r1)"
    "jwtVerify testExt (token r1) = Some payload"
    "tokenStore s1 (jti payload) = Some st"
    "st_policy st = ''id-renewal''"
    "catalog s1 (st_policy st) =
        Some \<lparr>p_name = ''National ID Renewal'',
           p_description = ''Access to basic identity information for ID renewal'',
           visibleFields = [''address'', ''dateOfBirth'', ''name'', ''nationalId''],
           hiddenFields = [''bankAccount'', ''email'', ''medicalHistory'', ''phone'',
                           ''propertyRecords'', ''taxRecords''],
           allowedActions = [''view_id_info'', ''submit_renewal_application'', ''upload_photo'']\<rparr>"
    "dispense testExt s1 (token r1) = Success d"
    "map o_fieldName (pr_visibleFields (dd_proof d)) =
       [''address'', ''dateOfBirth'', ''name'', ''nationalId'']"
    "\<exists>fc. getFC (st_fieldCommitments st) ''bankAccount'' = Own fc"
    "catalog s1 = (catalog (initialServer :: int server))(''id-renewal'' \<mapsto>
        \<lparr>p_name = ''National ID Renewal'',
           p_description = ''Access to basic identity information for ID renewal'',
           visibleFields = [''address'', ''dateOfBirth'', ''name'', ''nationalId''],
           hiddenFields = [''bankAccount'', ''email'', ''medicalHistory'', ''phone'',
                           ''propertyRecords'', ''taxRecords''],
           allowedActions = [''view_id_info'', ''submit_renewal_application'', ''upload_photo'']\<rparr>)"
    "rngCounter s1 = 11"
    "tokenId r1 = padStart 32 CHR ''0'' (toString16 (3 mod 256 ^ 16))"
    "citizenDB ''citizen-001'' = Some rec" "st_record st = rec"
    "serializePoint testExt (Point (sum_list (expectedPoints 1 rec))) = Inr (cr_recordCommitment r1)"
proof -
  let ?pol = "\<lparr>p_name = ''National ID Renewal'',
           p_description = ''Access to basic identity information for ID renewal'',
           visibleFields = [''name'', ''nationalId'', ''dateOfBirth'', ''address''],
           hiddenFields = [''phone'', ''email'', ''taxRecords'', ''bankAccount'',
                           ''medicalHistory'', ''propertyRecords''],
           allowedActions = [''view_id_info'', ''submit_renewal_application'', ''upload_photo'']\<rparr>"
  from citizen_exists obtain rec where rec: "citizenDB ''citizen-001'' = Some rec" by blast
  from sorted_demo_lists(2) [OF rec]
  have keys: "set (visibleFields ?pol) \<union> set (hiddenFields ?pol) \<subseteq> fst ` set rec" by simp
  have small: "rngCounter (initialServer :: int server) < 90000" by (simp add: initialServer_def)
  have ne: "visibleFields ?pol \<noteq> []" "hiddenFields ?pol \<noteq> []" by simp_all
  obtain s1 r1 payload st where
    tc: "tokenCreate testExt 0 initialServer (demoRequest ''id-renewal'') = (s1, Success r1)"
    and h: "jwtVerify testExt (token r1) = Some payload"
    "tokenStore s1 (jti payload) = Some st"
    "catalog s1 (st_policy st) = Some (sortFields ?pol)"
    "sort (visibleFields ?pol) =
       filter (\<lambda>f. memberGet (map_of (st_record st)) f \<noteq> Absent) (visibleFields (sortFields ?pol))"
    "sort (hiddenFields ?pol) =
       filter (\<lambda>f. memberGet (map_of (st_record st)) f \<noteq> Absent) (hiddenFields (sortFields ?pol))"
    "sort (visibleFields ?pol) \<noteq> []" "sort (hiddenFields ?pol) \<noteq> []"
    "\<forall>n \<in> set (sort (visibleFields ?pol)). \<exists>v. map_of (st_record st) n = Some v"
    "\<forall>n \<in> set (sort (visibleFields ?pol)) \<union> set (sort (hiddenFields ?pol)).
        \<exists>fc. getFC (st_fieldCommitments st) n = Own fc"
    "st_recordCommitment st \<noteq> 0"
    "sum_list (map (commitmentOf (st_fieldCommitments st)) (sort (hiddenFields ?pol))) \<noteq> 0"
    "sum_list (map (commitmentOf (st_fieldCommitments st)) (sort (visibleFields ?pol))) \<noteq> 0"
    "sum_list (map (commitmentOf (st_fieldCommitments st)) (sort (hiddenFields ?pol))) +
     sum_list (map (commitmentOf (st_fieldCommitments st)) (sort (visibleFields ?pol))) \<noteq> 0"
    and more: "st_record st = rec" "st_policy st = ''id-renewal''" "jti payload = tokenId r1"
    "catalog s1 = (catalog (initialServer :: int server))(''id-renewal'' \<mapsto> sortFields ?pol)"
    "rngCounter s1 = rngCounter (initialServer :: int server) + 11"
    "tokenId r1 = padStart 32 CHR ''0''
       (toString16 ((7 * rngCounter (initialServer :: int server) + 3) mod 256 ^ 16))"
    "serializePoint testExt
       (Point (sum_list (expectedPoints (Suc (rngCounter (initialServer :: int server))) rec))) =
       Inr (cr_recordCommitment r1)"
    by (rule testExt_run [OF idrenewal_policy small rec keys ne, of 0])
  from dispense_succeeds [OF h]
  obtain d where dd: "dispense testExt s1 (token r1) = Success d \<and>
    fst ` set (filteredRecord d) = set (sort (visibleFields ?pol)) - {''__proto__''} \<and>
    (\<forall>k \<in> set (sort (visibleFields ?pol)) - {''__proto__''}.
        map_of (filteredRecord d) k = map_of (st_record st) k) \<and>
    map o_fieldName (pr_visibleFields (dd_proof d)) = sort (visibleFields ?pol) \<and>
    hiddenFieldCount (dd_proof d) = length (sort (hiddenFields ?pol))" ..
  have sf: "sortFields ?pol = \<lparr>p_name = ''National ID Renewal'',
           p_description = ''Access to basic identity information for ID renewal'',
           visibleFields = [''address'', ''dateOfBirth'', ''name'', ''nationalId''],
           hiddenFields = [''bankAccount'', ''email'', ''medicalHistory'', ''phone'',
                           ''propertyRecords'', ''taxRecords''],
           allowedActions = [''view_id_info'', ''submit_renewal_application'', ''upload_photo'']\<rparr>"
    by (simp add: sortFields_def demo_sorts)
  show thesis
  proof (rule that [of s1 r1 payload st d rec])
    show "tokenCreate testExt 0 initialServer (demoRequest ''id-renewal'') = (s1, Success r1)"
      by (rule tc)
    show "jwtVerify testExt (token r1) = Some payload" by (rule h(1))
    show "tokenStore s1 (jti payload) = Some st" by (rule h(2))
    show "st_policy st = ''id-renewal''" by (rule more(2))
    show "catalog s1 (st_policy st) = Some \<lparr>p_name = ''National ID Renewal'',
           p_description = ''Access to basic identity information for ID renewal'',
           visibleFields = [''address'', ''dateOfBirth'', ''name'', ''nationalId''],
           hiddenFields = [''bankAccount'', ''email'', ''medicalHistory'', ''phone'',
                           ''propertyRecords'', ''taxRecords''],
           allowedActions = [''view_id_info'', ''submit_renewal_application'', ''upload_photo'']\<rparr>"
      using h(3) by (simp only: sf)
    show "dispense testExt s1 (token r1) = Success d" using dd by (rule conjunct1)
    from dd have "map o_fieldName (pr_visibleFields (dd_proof d)) = sort (visibleFields ?pol)"
      by simp
    then show "map o_fieldName (pr_visibleFields (dd_proof d)) =
       [''address'', ''dateOfBirth'', ''name'', ''nationalId'']"
      by (simp add: demo_sorts)
    from h(9) show "\<exists>fc. getFC (st_fieldCommitments st) ''bankAccount'' = Own fc"
      by simp
    show "catalog s1 = (catalog (initialServer :: int server))(''id-renewal'' \<mapsto>
        \<lparr>p_name = ''National ID Renewal'',
           p_description = ''Access to basic identity information for ID renewal'',
           visibleFields = [''address'', ''dateOfBirth'', ''name'', ''nationalId''],
           hiddenFields = [''bankAccount'', ''email'', ''medicalHistory'', ''phone'',
                           ''propertyRecords'', ''taxRecords''],
           allowedActions = [''view_id_info'', ''submit_renewal_application'', ''upload_photo'']\<rparr>)"
      using more(4) by (simp only: sf)
    show "rngCounter s1 = 11" using more(5) by (simp add: initialServer_def)
    show "tokenId r1 = padStart 32 CHR ''0'' (toString16 (3 mod 256 ^ 16))"
      using more(6) by (simp add: initialServer_def)
    show "citizenDB ''citizen-001'' = Some rec" by (rule rec)
    show "st_record st = rec" by (rule more(1))
    show "serializePoint testExt (Point (sum_list (expectedPoints 1 rec))) =
            Inr (cr_recordCommitment r1)"
      using more(7) by (simp add: initialServer_def)
  qed
qed

lemma jsonString_plain:
  "list_all (\<lambda>c. 32 \<le> (of_char c :: nat) \<and> c \<noteq> CHR 0x22 \<and> c \<noteq> CHR 0x5C) n \<Longrightarrow>
   jsonString n = CHR 0x22 # n @ [CHR 0x22]"
proof -
  assume a: "list_all (\<lambda>c. 32 \<le> (of_char c :: nat) \<and> c \<noteq> CHR 0x22 \<and> c \<noteq> CHR 0x5C) n"
  have c: "jsonChar c = [c]" if "32 \<le> (of_char c :: nat)" "c \<noteq> CHR 0x22" "c \<noteq> CHR 0x5C" for c
  proof -
    from that(1) have "c \<noteq> CHR 0x08" "c \<noteq> CHR 0x09" "c \<noteq> CHR 0x0A" "c \<noteq> CHR 0x0C" "c \<noteq> CHR 0x0D"
      by auto
    with that show ?thesis by (simp add: jsonChar_def)
  qed
  from a have "concat (map jsonChar n) = n"
    by (induction n) (simp_all add: c)
  then show ?thesis by (simp add: jsonString_def)
qed

lemma testExt_serializePoint:
  "serializePoint testExt (Point P) = Inr sp \<Longrightarrow>
   sx sp = padStart 64 CHR ''0'' (toString16 (nat \<bar>P\<bar>))"
  by (auto simp: serializePoint_def xy_def coordText_def testExt_def split: if_splits)

lemma taxfiling_policy:
  "catalog (initialServer :: int server) ''tax-filing'' =
     Some \<lparr>p_name = ''Tax Filing Assistance'',
         p_description = ''Access to financial information for tax preparation'',
         visibleFields = [''name'', ''nationalId'', ''taxRecords'', ''bankAccount''],
         hiddenFields = [''dateOfBirth'', ''address'', ''phone'', ''email'',
                         ''medicalHistory'', ''propertyRecords''],
         allowedActions = [''view_tax_info'', ''submit_tax_return'', ''download_tax_certificate'']\<rparr>"
  by (simp add: initialServer_def POLICIES_def)

section \<open>The server: claims\<close>

text \<open>
  Claim C2 (coverage), as the code has it. Dispense has no coverage check and no error
  \<^verbatim>\<open>PolicyRecordMismatch\<close>. Let \<open>V\<close> be the visible and \<open>H\<close> the hidden fields of
  the policy for which \<^verbatim>\<open>record[field]\<close> is defined. Whenever the token verifies, its
  entry is stored, \<open>V\<close> and \<open>H\<close> are non-empty, the fields of \<open>V\<close> are fields of the
  record itself, the fields of \<open>V\<close> and \<open>H\<close> have stored commitments, and none of the
  stored record commitment, the sum \<open>C_H\<close> of the stored commitments of \<open>H\<close>, the sum
  \<open>C_F\<close> of those of \<open>V\<close>, and \<open>C_H + C_F\<close> is the point at infinity, Dispense answers
  with the filtered record (the fields of \<open>V\<close> with the record's values; the key
  \<^verbatim>\<open>__proto__\<close> cannot be set by assignment and is left out), one opening per field
  of \<open>V\<close> and the count of \<open>H\<close>, whether or not \<open>V \<union> H\<close> is all of the record's
  keys.
\<close>

theorem dispense_without_coverage_check:
  assumes "jwtVerify E tok = Some payload"
    and "tokenStore s (jti payload) = Some st"
    and "catalog s (st_policy st) = Some pol"
    and "V = filter (\<lambda>f. memberGet (map_of (st_record st)) f \<noteq> Absent) (visibleFields pol)"
    and "H = filter (\<lambda>f. memberGet (map_of (st_record st)) f \<noteq> Absent) (hiddenFields pol)"
    and "V \<noteq> []" and "H \<noteq> []"
    and "\<forall>n \<in> set V. \<exists>v. map_of (st_record st) n = Some v"
    and "\<forall>n \<in> set V \<union> set H. \<exists>fc. getFC (st_fieldCommitments st) n = Own fc"
    and "st_recordCommitment st \<noteq> 0"
    and "sum_list (map (commitmentOf (st_fieldCommitments st)) H) \<noteq> 0"
    and "sum_list (map (commitmentOf (st_fieldCommitments st)) V) \<noteq> 0"
    and "sum_list (map (commitmentOf (st_fieldCommitments st)) H) +
         sum_list (map (commitmentOf (st_fieldCommitments st)) V) \<noteq> 0"
  shows "\<exists>d. dispense E s tok = Success d \<and>
           fst ` set (filteredRecord d) = set V - {''__proto__''} \<and>
           (\<forall>k \<in> set V - {''__proto__''}. map_of (filteredRecord d) k = map_of (st_record st) k) \<and>
           map o_fieldName (pr_visibleFields (dd_proof d)) = V \<and>
           hiddenFieldCount (dd_proof d) = length H"
  using assms by (rule dispense_succeeds)

theorem dispense_without_coverage_check_witness:
  "\<exists>s1 r1 d.
     tokenCreate testExt 0 partialServer (demoRequest ''name-only'') = (s1, Success r1) \<and>
     dispense testExt s1 (token r1) = Success d \<and>
     fst ` set (filteredRecord d) = {''name''} \<and>
     map_of (filteredRecord d) ''name'' = Some ''Ahmed Ali Mohammed'' \<and>
     map o_fieldName (pr_visibleFields (dd_proof d)) = [''name''] \<and>
     hiddenFieldCount (dd_proof d) = 1"
proof -
  let ?pol = "\<lparr>p_name = ''Name only'', p_description = ''Leaves eight fields of the record out'',
           visibleFields = [''name''], hiddenFields = [''phone''],
           allowedActions = [''view_name'']\<rparr>"
  from citizen_exists obtain rec where rec: "citizenDB ''citizen-001'' = Some rec" by blast
  from citizen_keys [OF rec]
  have keys: "set (visibleFields ?pol) \<union> set (hiddenFields ?pol) \<subseteq> fst ` set rec"
    by (simp flip: set_map)
  have small: "rngCounter (partialServer :: int server) < 90000" by (simp add: partialServer_def)
  have ne: "visibleFields ?pol \<noteq> []" "hiddenFields ?pol \<noteq> []" by simp_all
  obtain s1 r1 payload st where
    tc: "tokenCreate testExt 0 partialServer (demoRequest ''name-only'') = (s1, Success r1)"
    and h: "jwtVerify testExt (token r1) = Some payload"
    "tokenStore s1 (jti payload) = Some st"
    "catalog s1 (st_policy st) = Some (sortFields ?pol)"
    "sort (visibleFields ?pol) =
       filter (\<lambda>f. memberGet (map_of (st_record st)) f \<noteq> Absent) (visibleFields (sortFields ?pol))"
    "sort (hiddenFields ?pol) =
       filter (\<lambda>f. memberGet (map_of (st_record st)) f \<noteq> Absent) (hiddenFields (sortFields ?pol))"
    "sort (visibleFields ?pol) \<noteq> []" "sort (hiddenFields ?pol) \<noteq> []"
    "\<forall>n \<in> set (sort (visibleFields ?pol)). \<exists>v. map_of (st_record st) n = Some v"
    "\<forall>n \<in> set (sort (visibleFields ?pol)) \<union> set (sort (hiddenFields ?pol)).
        \<exists>fc. getFC (st_fieldCommitments st) n = Own fc"
    "st_recordCommitment st \<noteq> 0"
    "sum_list (map (commitmentOf (st_fieldCommitments st)) (sort (hiddenFields ?pol))) \<noteq> 0"
    "sum_list (map (commitmentOf (st_fieldCommitments st)) (sort (visibleFields ?pol))) \<noteq> 0"
    "sum_list (map (commitmentOf (st_fieldCommitments st)) (sort (hiddenFields ?pol))) +
     sum_list (map (commitmentOf (st_fieldCommitments st)) (sort (visibleFields ?pol))) \<noteq> 0"
    and strec: "st_record st = rec"
    by (rule testExt_run [OF nameonly_policy small rec keys ne, of 0])
  from dispense_without_coverage_check [OF h]
  obtain d where dd: "dispense testExt s1 (token r1) = Success d \<and>
    fst ` set (filteredRecord d) = set (sort (visibleFields ?pol)) - {''__proto__''} \<and>
    (\<forall>k \<in> set (sort (visibleFields ?pol)) - {''__proto__''}.
        map_of (filteredRecord d) k = map_of (st_record st) k) \<and>
    map o_fieldName (pr_visibleFields (dd_proof d)) = sort (visibleFields ?pol) \<and>
    hiddenFieldCount (dd_proof d) = length (sort (hiddenFields ?pol))" ..
  then have d: "dispense testExt s1 (token r1) = Success d"
    "fst ` set (filteredRecord d) = {''name''}"
    "map_of (filteredRecord d) ''name'' = map_of rec ''name''"
    "map o_fieldName (pr_visibleFields (dd_proof d)) = [''name'']"
    "hiddenFieldCount (dd_proof d) = 1"
    by (simp_all add: strec)
  from d(3) citizen_lookup(1) [OF rec]
  have "map_of (filteredRecord d) ''name'' = Some ''Ahmed Ali Mohammed''" by simp
  with tc d(1,2,4,5) show ?thesis
    by (intro exI [of _ s1] exI [of _ r1] exI [of _ d]) simp
qed

theorem dispense_coverage_counterexample:
  "isSuccess (snd (tokenCreate testExt 0 partialServer (demoRequest ''name-only'')))
   \<and> isSuccess (dispense testExt
        (fst (tokenCreate testExt 0 partialServer (demoRequest ''name-only'')))
        (token (the (successData (snd (tokenCreate testExt 0 partialServer (demoRequest ''name-only'')))))))
   \<and> visibleFields (the (catalog (partialServer :: int server) ''name-only'')) = [''name'']
   \<and> hiddenFields (the (catalog (partialServer :: int server) ''name-only'')) = [''phone'']
   \<and> ''email'' \<in> fst ` set (the (citizenDB ''citizen-001''))
   \<and> ''email'' \<notin> set [''name''] \<union> set [''phone'']"
proof -
  let ?pol = "\<lparr>p_name = ''Name only'', p_description = ''Leaves eight fields of the record out'',
           visibleFields = [''name''], hiddenFields = [''phone''],
           allowedActions = [''view_name'']\<rparr>"
  from citizen_exists obtain rec where rec: "citizenDB ''citizen-001'' = Some rec" by blast
  from citizen_keys [OF rec]
  have keys: "set (visibleFields ?pol) \<union> set (hiddenFields ?pol) \<subseteq> fst ` set rec"
    by (simp flip: set_map)
  have small: "rngCounter (partialServer :: int server) < 90000" by (simp add: partialServer_def)
  have ne: "visibleFields ?pol \<noteq> []" "hiddenFields ?pol \<noteq> []" by simp_all
  obtain s1 r1 payload st where
    tc: "tokenCreate testExt 0 partialServer (demoRequest ''name-only'') = (s1, Success r1)"
    and h: "jwtVerify testExt (token r1) = Some payload"
    "tokenStore s1 (jti payload) = Some st"
    "catalog s1 (st_policy st) = Some (sortFields ?pol)"
    "sort (visibleFields ?pol) =
       filter (\<lambda>f. memberGet (map_of (st_record st)) f \<noteq> Absent) (visibleFields (sortFields ?pol))"
    "sort (hiddenFields ?pol) =
       filter (\<lambda>f. memberGet (map_of (st_record st)) f \<noteq> Absent) (hiddenFields (sortFields ?pol))"
    "sort (visibleFields ?pol) \<noteq> []" "sort (hiddenFields ?pol) \<noteq> []"
    "\<forall>n \<in> set (sort (visibleFields ?pol)). \<exists>v. map_of (st_record st) n = Some v"
    "\<forall>n \<in> set (sort (visibleFields ?pol)) \<union> set (sort (hiddenFields ?pol)).
        \<exists>fc. getFC (st_fieldCommitments st) n = Own fc"
    "st_recordCommitment st \<noteq> 0"
    "sum_list (map (commitmentOf (st_fieldCommitments st)) (sort (hiddenFields ?pol))) \<noteq> 0"
    "sum_list (map (commitmentOf (st_fieldCommitments st)) (sort (visibleFields ?pol))) \<noteq> 0"
    "sum_list (map (commitmentOf (st_fieldCommitments st)) (sort (hiddenFields ?pol))) +
     sum_list (map (commitmentOf (st_fieldCommitments st)) (sort (visibleFields ?pol))) \<noteq> 0"
    by (rule testExt_run [OF nameonly_policy small rec keys ne, of 0])
  from dispense_succeeds [OF h]
  obtain d where "dispense testExt s1 (token r1) = Success d" by (elim exE conjE)
  then have "isSuccess (dispense testExt s1 (token r1))" by simp
  moreover have "''email'' \<in> fst ` set (the (citizenDB ''citizen-001''))"
    using citizen_lookup(6) [OF rec] rec by simp
  ultimately show ?thesis
    using tc by (simp add: partialServer_def)
qed

text \<open>
  Claim C9 (openings disclose randomness only for visible fields). When Dispense answers
  a token redemption, every opening of the proof names a field of \<^verbatim>\<open>policy.visibleFields\<close>
  that the record has, carries the record's value of that field and the hex encoding of
  the blinding factor stored for it; no opening names a hidden field when the policy's
  two lists are disjoint. The answer does not depend on the blinding factor of any other
  field: replacing the stored field commitments by others for which every look-up finds
  the same commitment point, and the same blinding factor on the visible fields, gives
  the same answer.
\<close>

theorem dispense_discloses_only_visible:
  assumes "dispense E s tok = Success d"
    and "jwtVerify E tok = Some payload"
    and "tokenStore s (jti payload) = Some st"
    and "catalog s (st_policy st) = Some pol"
    and "\<forall>n. map_lookup fcCommitment (getFC fcs' n) =
              map_lookup fcCommitment (getFC (st_fieldCommitments st) n)"
    and "\<forall>n \<in> set (visibleFields pol).
           map_lookup randomness (getFC fcs' n) =
           map_lookup randomness (getFC (st_fieldCommitments st) n)"
  shows "(\<forall>x \<in> set (pr_visibleFields (dd_proof d)).
            o_fieldName x \<in> set (visibleFields pol) \<and>
            map_of (st_record st) (o_fieldName x) = Some (o_value x) \<and>
            (\<exists>fc. getFC (st_fieldCommitments st) (o_fieldName x) = Own fc \<and>
                  o_randomness x = serializeBN (randomness fc)))
         \<and> (set (visibleFields pol) \<inter> set (hiddenFields pol) = {} \<longrightarrow>
              (\<forall>x \<in> set (pr_visibleFields (dd_proof d)). o_fieldName x \<notin> set (hiddenFields pol)))
         \<and> dispense E
              (s\<lparr>tokenStore := (tokenStore s)(jti payload \<mapsto> st\<lparr>st_fieldCommitments := fcs'\<rparr>)\<rparr>)
              tok = Success d"
proof -
  let ?rec = "st_record st" and ?fcs = "st_fieldCommitments st"
  let ?V = "filter (\<lambda>n. memberGet (map_of ?rec) n \<noteq> Absent) (visibleFields pol)"
  from dispense_SuccessD [OF assms(1-4)]
  obtain fd os where fl: "filterLoop ?rec ?fcs (visibleFields pol) ([], []) = Inr (fd, os)"
    and os: "pr_visibleFields (dd_proof d) = os"
    by blast
  from filterLoop_openings [OF fl]
  have os_eq: "os = map (honestOpening ?rec ?fcs) ?V"
    and present: "\<forall>n \<in> set ?V. (\<exists>v. map_of ?rec n = Some v) \<and> (\<exists>fc. getFC ?fcs n = Own fc)"
    by simp_all
  have first: "\<forall>x \<in> set (pr_visibleFields (dd_proof d)).
            o_fieldName x \<in> set (visibleFields pol) \<and>
            map_of ?rec (o_fieldName x) = Some (o_value x) \<and>
            (\<exists>fc. getFC ?fcs (o_fieldName x) = Own fc \<and>
                  o_randomness x = serializeBN (randomness fc))"
  proof
    fix x assume "x \<in> set (pr_visibleFields (dd_proof d))"
    with os os_eq obtain n where n: "n \<in> set ?V" and o: "x = honestOpening ?rec ?fcs n"
      by auto
    from n have "n \<in> set (visibleFields pol)" by simp
    moreover from present n obtain v fc where "map_of ?rec n = Some v" "getFC ?fcs n = Own fc"
      by blast
    ultimately show "o_fieldName x \<in> set (visibleFields pol) \<and>
            map_of ?rec (o_fieldName x) = Some (o_value x) \<and>
            (\<exists>fc. getFC ?fcs (o_fieldName x) = Own fc \<and>
                  o_randomness x = serializeBN (randomness fc))"
      by (simp add: o honestOpening_def randomnessOf_def)
  qed
  then have second: "set (visibleFields pol) \<inter> set (hiddenFields pol) = {} \<longrightarrow>
              (\<forall>x \<in> set (pr_visibleFields (dd_proof d)). o_fieldName x \<notin> set (hiddenFields pol))"
    by blast
  let ?s' = "s\<lparr>tokenStore := (tokenStore s)(jti payload \<mapsto> st\<lparr>st_fieldCommitments := fcs'\<rparr>)\<rparr>"
  have fl': "filterLoop ?rec fcs' (visibleFields pol) ([], []) =
             filterLoop ?rec ?fcs (visibleFields pol) ([], [])"
    by (rule filterLoop_cong [OF assms(6)])
  have sub': "computeSubsetCommitment fcs' names = computeSubsetCommitment ?fcs names" for names
    by (simp add: computeSubsetCommitment_def computeSubsetLoop_cong [OF assms(5)])
  from assms(4) have pol: "memberGet (catalog s) (st_policy st) = Own pol" by (rule memberGet_Some)
  have "dispense E ?s' tok = dispense E s tok"
    using assms(2,3) pol by (simp add: dispense_def Let_def fl' sub' cong: sum.case_cong)
  with assms(1) first second show ?thesis by simp
qed

theorem dispense_discloses_only_visible_witness:
  "\<exists>s1 r1 payload st d fc.
     tokenCreate testExt 0 initialServer (demoRequest ''id-renewal'') = (s1, Success r1) \<and>
     jwtVerify testExt (token r1) = Some payload \<and>
     tokenStore s1 (jti payload) = Some st \<and>
     dispense testExt s1 (token r1) = Success d \<and>
     map o_fieldName (pr_visibleFields (dd_proof d)) =
       [''address'', ''dateOfBirth'', ''name'', ''nationalId''] \<and>
     getFC (st_fieldCommitments st) ''bankAccount'' = Own fc \<and>
     dispense testExt
       (s1\<lparr>tokenStore := (tokenStore s1)(jti payload \<mapsto>
             st\<lparr>st_fieldCommitments :=
                  (st_fieldCommitments st)\<lparr>ownProps :=
                     (ownProps (st_fieldCommitments st))(''bankAccount'' \<mapsto>
                        fc\<lparr>randomness := randomness fc + 1\<rparr>)\<rparr>\<rparr>)\<rparr>)
       (token r1) = Success d"
proof -
  obtain s1 r1 payload st d rec where
    tc: "tokenCreate testExt 0 initialServer (demoRequest ''id-renewal'') = (s1, Success r1)"
    and jv: "jwtVerify testExt (token r1) = Some payload"
    and st: "tokenStore s1 (jti payload) = Some st"
    and stp: "st_policy st = ''id-renewal''"
    and cat: "catalog s1 (st_policy st) =
        Some \<lparr>p_name = ''National ID Renewal'',
           p_description = ''Access to basic identity information for ID renewal'',
           visibleFields = [''address'', ''dateOfBirth'', ''name'', ''nationalId''],
           hiddenFields = [''bankAccount'', ''email'', ''medicalHistory'', ''phone'',
                           ''propertyRecords'', ''taxRecords''],
           allowedActions = [''view_id_info'', ''submit_renewal_application'', ''upload_photo'']\<rparr>"
    and d: "dispense testExt s1 (token r1) = Success d"
    and names: "map o_fieldName (pr_visibleFields (dd_proof d)) =
       [''address'', ''dateOfBirth'', ''name'', ''nationalId'']"
    and own: "\<exists>fc. getFC (st_fieldCommitments st) ''bankAccount'' = Own fc"
    by (rule idrenewal_run)
  from own obtain fc where fc: "getFC (st_fieldCommitments st) ''bankAccount'' = Own fc" ..
  let ?fcs = "st_fieldCommitments st"
  let ?fcs' = "?fcs\<lparr>ownProps := (ownProps ?fcs)(''bankAccount'' \<mapsto>
                        fc\<lparr>randomness := randomness fc + 1\<rparr>)\<rparr>"
  have other: "getFC ?fcs' n = getFC ?fcs n" if "n \<noteq> ''bankAccount''" for n
    using that by (rule getFC_ownProps_update)
  have same: "getFC ?fcs' ''bankAccount'' = Own (fc\<lparr>randomness := randomness fc + 1\<rparr>)"
    by (rule getFC_ownProps_update_same)
  have h1: "\<forall>n. map_lookup fcCommitment (getFC ?fcs' n) = map_lookup fcCommitment (getFC ?fcs n)"
  proof
    fix n
    show "map_lookup fcCommitment (getFC ?fcs' n) = map_lookup fcCommitment (getFC ?fcs n)"
    proof (cases "n = ''bankAccount''")
      case True
      with same fc show ?thesis by simp
    next
      case False
      with other show ?thesis by simp
    qed
  qed
  have h2: "\<forall>n \<in> set (visibleFields \<lparr>p_name = ''National ID Renewal'',
           p_description = ''Access to basic identity information for ID renewal'',
           visibleFields = [''address'', ''dateOfBirth'', ''name'', ''nationalId''],
           hiddenFields = [''bankAccount'', ''email'', ''medicalHistory'', ''phone'',
                           ''propertyRecords'', ''taxRecords''],
           allowedActions = [''view_id_info'', ''submit_renewal_application'', ''upload_photo'']\<rparr>).
           map_lookup randomness (getFC ?fcs' n) = map_lookup randomness (getFC ?fcs n)"
  proof
    fix n
    assume "n \<in> set (visibleFields \<lparr>p_name = ''National ID Renewal'',
           p_description = ''Access to basic identity information for ID renewal'',
           visibleFields = [''address'', ''dateOfBirth'', ''name'', ''nationalId''],
           hiddenFields = [''bankAccount'', ''email'', ''medicalHistory'', ''phone'',
                           ''propertyRecords'', ''taxRecords''],
           allowedActions = [''view_id_info'', ''submit_renewal_application'', ''upload_photo'']\<rparr>)"
    then have "n \<noteq> ''bankAccount''" by auto
    with other show "map_lookup randomness (getFC ?fcs' n) = map_lookup randomness (getFC ?fcs n)"
      by simp
  qed
  note concl = dispense_discloses_only_visible [OF d jv st cat h1 h2]
  note unchanged = concl [THEN conjunct2, THEN conjunct2]
  show ?thesis
    apply (rule exI [of _ s1], rule exI [of _ r1], rule exI [of _ payload], rule exI [of _ st],
        rule exI [of _ d], rule exI [of _ fc])
    apply (intro conjI)
          apply (rule tc)
         apply (rule jv)
        apply (rule st)
       apply (rule d)
      apply (rule names)
     apply (rule fc)
    apply (rule unchanged)
    done
qed

text \<open>
  Claim C10 (Issue changes the catalog). A successful Issue for a policy replaces the
  \<^verbatim>\<open>visibleFields\<close> and \<^verbatim>\<open>hiddenFields\<close> of the catalog's entry by their sorted
  versions and leaves the other entries as they are; the entry stays so under every later
  sequence of Issue requests; and every later Dispense of a token of that policy opens
  the visible fields in sorted order. (For the policy \<^verbatim>\<open>id-renewal\<close> of the source the
  order changes, as the witness shows.)
\<close>

theorem issue_sorts_catalog_in_place:
  assumes "tokenCreate E now s req = (s', Success r)"
    and "catalog s (policyId req) = Some pol"
  shows "catalog s' (policyId req) =
           Some (pol\<lparr>visibleFields := sort (visibleFields pol),
                     hiddenFields := sort (hiddenFields pol)\<rparr>)
       \<and> (\<forall>pid. pid \<noteq> policyId req \<longrightarrow> catalog s' pid = catalog s pid)
       \<and> (\<forall>reqs. catalog (issueAll E s' reqs) (policyId req) = catalog s' (policyId req))
       \<and> (\<forall>reqs tok payload st d.
             jwtVerify E tok = Some payload \<and>
             tokenStore (issueAll E s' reqs) (jti payload) = Some st \<and>
             st_policy st = policyId req \<and>
             dispense E (issueAll E s' reqs) tok = Success d \<longrightarrow>
             map o_fieldName (pr_visibleFields (dd_proof d)) =
               filter (\<lambda>f. map_of (st_record st) f \<noteq> None) (sort (visibleFields pol)))"
proof -
  from tokenCreate_SuccessD [OF assms(1)] assms(2)
  have cat: "catalog s' = (catalog s)(policyId req \<mapsto> sortFields pol)" by auto
  then have c1: "catalog s' (policyId req) = Some (sortFields pol)" by simp
  have later: "catalog (issueAll E s' reqs) (policyId req) = Some (sortFields pol)" for reqs
    by (rule issueAll_catalog_sorted [OF c1])
  have disp: "map o_fieldName (pr_visibleFields (dd_proof d)) =
               filter (\<lambda>f. map_of (st_record st) f \<noteq> None) (sort (visibleFields pol))"
    if "jwtVerify E tok = Some payload"
      "tokenStore (issueAll E s' reqs) (jti payload) = Some st"
      "st_policy st = policyId req"
      "dispense E (issueAll E s' reqs) tok = Success d" for reqs tok payload st d
  proof -
    let ?rec = "st_record st"
    let ?names = "sort (visibleFields pol)"
    from later [of reqs] that(3)
    have "catalog (issueAll E s' reqs) (st_policy st) = Some (sortFields pol)" by simp
    from dispense_SuccessD [OF that(4) that(1) that(2) this]
    obtain fd os where
      fl: "filterLoop ?rec (st_fieldCommitments st) ?names ([], []) = Inr (fd, os)"
      and os: "pr_visibleFields (dd_proof d) = os"
      by (auto simp: sortFields_def)
    from filterLoop_openings [OF fl]
    have os_eq: "os = map (honestOpening ?rec (st_fieldCommitments st))
                        (filter (\<lambda>n. memberGet (map_of ?rec) n \<noteq> Absent) ?names)"
      and present: "\<forall>n \<in> set (filter (\<lambda>n. memberGet (map_of ?rec) n \<noteq> Absent) ?names).
                      \<exists>v. map_of ?rec n = Some v"
      by simp_all
    have "filter (\<lambda>n. memberGet (map_of ?rec) n \<noteq> Absent) ?names =
          filter (\<lambda>f. map_of ?rec f \<noteq> None) ?names"
    proof (rule filter_cong [OF refl])
      fix n assume n: "n \<in> set ?names"
      show "(memberGet (map_of ?rec) n \<noteq> Absent) = (map_of ?rec n \<noteq> None)"
      proof
        assume "memberGet (map_of ?rec) n \<noteq> Absent"
        with n present show "map_of ?rec n \<noteq> None" by auto
      next
        assume "map_of ?rec n \<noteq> None"
        then show "memberGet (map_of ?rec) n \<noteq> Absent" by (auto simp: memberGet_def)
      qed
    qed
    with os os_eq show ?thesis by (simp add: honestOpening_def comp_def)
  qed
  show ?thesis
  proof (intro conjI allI impI)
    show "catalog s' (policyId req) =
           Some (pol\<lparr>visibleFields := sort (visibleFields pol),
                     hiddenFields := sort (hiddenFields pol)\<rparr>)"
      using c1 by (simp add: sortFields_def)
    show "catalog s' pid = catalog s pid" if "pid \<noteq> policyId req" for pid
      using that cat by simp
    show "catalog (issueAll E s' reqs) (policyId req) = catalog s' (policyId req)" for reqs
      using later [of reqs] c1 by simp
    show "map o_fieldName (pr_visibleFields (dd_proof d)) =
               filter (\<lambda>f. map_of (st_record st) f \<noteq> None) (sort (visibleFields pol))"
      if "jwtVerify E tok = Some payload \<and>
             tokenStore (issueAll E s' reqs) (jti payload) = Some st \<and>
             st_policy st = policyId req \<and>
             dispense E (issueAll E s' reqs) tok = Success d" for reqs tok payload st d
      using that disp [of tok payload reqs st d] by simp
  qed
qed

theorem issue_sorts_catalog_in_place_witness:
  "\<exists>s1 r1 payload st d.
     tokenCreate testExt 0 initialServer (demoRequest ''id-renewal'') = (s1, Success r1) \<and>
     visibleFields (the (catalog (initialServer :: int server) ''id-renewal'')) =
       [''name'', ''nationalId'', ''dateOfBirth'', ''address''] \<and>
     catalog s1 ''id-renewal'' =
        Some \<lparr>p_name = ''National ID Renewal'',
           p_description = ''Access to basic identity information for ID renewal'',
           visibleFields = [''address'', ''dateOfBirth'', ''name'', ''nationalId''],
           hiddenFields = [''bankAccount'', ''email'', ''medicalHistory'', ''phone'',
                           ''propertyRecords'', ''taxRecords''],
           allowedActions = [''view_id_info'', ''submit_renewal_application'', ''upload_photo'']\<rparr> \<and>
     catalog s1 ''tax-filing'' = catalog (initialServer :: int server) ''tax-filing'' \<and>
     catalog (issueAll testExt s1 [(5, demoRequest ''tax-filing'')]) ''id-renewal'' =
       catalog s1 ''id-renewal'' \<and>
     jwtVerify testExt (token r1) = Some payload \<and>
     tokenStore s1 (jti payload) = Some st \<and>
     dispense testExt s1 (token r1) = Success d \<and>
     map o_fieldName (pr_visibleFields (dd_proof d)) =
       [''address'', ''dateOfBirth'', ''name'', ''nationalId'']"
proof -
  obtain s1 r1 payload st d rec where
    tc: "tokenCreate testExt 0 initialServer (demoRequest ''id-renewal'') = (s1, Success r1)"
    and jv: "jwtVerify testExt (token r1) = Some payload"
    and st: "tokenStore s1 (jti payload) = Some st"
    and stp: "st_policy st = ''id-renewal''"
    and cat: "catalog s1 (st_policy st) =
        Some \<lparr>p_name = ''National ID Renewal'',
           p_description = ''Access to basic identity information for ID renewal'',
           visibleFields = [''address'', ''dateOfBirth'', ''name'', ''nationalId''],
           hiddenFields = [''bankAccount'', ''email'', ''medicalHistory'', ''phone'',
                           ''propertyRecords'', ''taxRecords''],
           allowedActions = [''view_id_info'', ''submit_renewal_application'', ''upload_photo'']\<rparr>"
    and d: "dispense testExt s1 (token r1) = Success d"
    and names0: "map o_fieldName (pr_visibleFields (dd_proof d)) =
       [''address'', ''dateOfBirth'', ''name'', ''nationalId'']"
    and own: "\<exists>fc. getFC (st_fieldCommitments st) ''bankAccount'' = Own fc"
    and cat1: "catalog s1 = (catalog (initialServer :: int server))(''id-renewal'' \<mapsto>
        \<lparr>p_name = ''National ID Renewal'',
           p_description = ''Access to basic identity information for ID renewal'',
           visibleFields = [''address'', ''dateOfBirth'', ''name'', ''nationalId''],
           hiddenFields = [''bankAccount'', ''email'', ''medicalHistory'', ''phone'',
                           ''propertyRecords'', ''taxRecords''],
           allowedActions = [''view_id_info'', ''submit_renewal_application'', ''upload_photo'']\<rparr>)"
    and rng: "rngCounter s1 = 11"
    and tid: "tokenId r1 = padStart 32 CHR ''0'' (toString16 (3 mod 256 ^ 16))"
    and rec: "citizenDB ''citizen-001'' = Some rec" and strec: "st_record st = rec"
    by (rule idrenewal_run)
  note concl = issue_sorts_catalog_in_place [OF tc idrenewal_request]
  have pid: "policyId (demoRequest ''id-renewal'') = ''id-renewal''"
    by (simp add: demoRequest_def)
  have before: "visibleFields (the (catalog (initialServer :: int server) ''id-renewal'')) =
       [''name'', ''nationalId'', ''dateOfBirth'', ''address'']"
    by (simp add: idrenewal_policy)
  from concl [THEN conjunct1]
  have after: "catalog s1 ''id-renewal'' =
        Some \<lparr>p_name = ''National ID Renewal'',
           p_description = ''Access to basic identity information for ID renewal'',
           visibleFields = [''address'', ''dateOfBirth'', ''name'', ''nationalId''],
           hiddenFields = [''bankAccount'', ''email'', ''medicalHistory'', ''phone'',
                           ''propertyRecords'', ''taxRecords''],
           allowedActions = [''view_id_info'', ''submit_renewal_application'', ''upload_photo'']\<rparr>"
    by (simp add: pid demo_sorts)
  from concl [THEN conjunct2, THEN conjunct1, THEN spec [where x = "''tax-filing''"]]
  have other: "catalog s1 ''tax-filing'' = catalog (initialServer :: int server) ''tax-filing''"
    by (simp add: pid)
  from concl [THEN conjunct2, THEN conjunct2, THEN conjunct1,
      THEN spec [where x = "[(5, demoRequest ''tax-filing'')]"]]
  have later: "catalog (issueAll testExt s1 [(5, demoRequest ''tax-filing'')]) ''id-renewal'' =
       catalog s1 ''id-renewal''"
    by (simp only: pid)
  from concl [THEN conjunct2, THEN conjunct2, THEN conjunct2, THEN spec [where x = "[]"],
      THEN spec [where x = "token r1"], THEN spec [where x = payload], THEN spec [where x = st],
      THEN spec [where x = d]] jv st stp d
  have "map o_fieldName (pr_visibleFields (dd_proof d)) =
          filter (\<lambda>f. map_of (st_record st) f \<noteq> None)
            (sort [''name'', ''nationalId'', ''dateOfBirth'', ''address''])"
    by (simp add: pid)
  then have names: "map o_fieldName (pr_visibleFields (dd_proof d)) =
       [''address'', ''dateOfBirth'', ''name'', ''nationalId'']"
    by (simp only: demo_sorts strec sorted_demo_lists(1) [OF rec])
  show ?thesis
    apply (rule exI [of _ s1], rule exI [of _ r1], rule exI [of _ payload], rule exI [of _ st],
        rule exI [of _ d])
    apply (intro conjI)
            apply (rule tc)
           apply (rule before)
          apply (rule after)
         apply (rule other)
        apply (rule later)
       apply (rule jv)
      apply (rule st)
     apply (rule d)
    apply (rule names)
    done
qed

text \<open>
  Claim C8 (policy hash determinism). Two successful runs of Issue for the same policy,
  with any Issue requests served in between, return the same policy hash. The hash is
  the digest of the JSON text \<^verbatim>\<open>{"visible":[...],"hidden":[...]}\<close> whose two arrays hold
  the sorted visible and the sorted hidden names, each as a JSON string (a name without
  quote, backslash and control characters is written between two quotes as it is), and
  for lists without repetition it depends only on the two sets of names. (The witness
  also shows the two token ids and the two record commitments differing.)
\<close>

theorem policy_hash_deterministic:
  assumes \<open>tokenCreate E now1 s req1 = (s1, Success r1)\<close>
    and \<open>tokenCreate E now2 (issueAll E s1 reqs) req2 = (s2, Success r2)\<close>
    and \<open>policyId req2 = policyId req1\<close>
    and \<open>catalog s (policyId req1) = Some pol\<close>
  shows \<open>cr_policyHash r2 = cr_policyHash r1
       \<and> cr_policyHash r1 =
           sha256hex E
             (''{"visible":['' @ joinWith '','' (map jsonString (sort (visibleFields pol))) @
              ''],"hidden":['' @ joinWith '','' (map jsonString (sort (hiddenFields pol))) @
              '']}'')
       \<and> (\<forall>n. list_all (\<lambda>c. 32 \<le> (of_char c :: nat) \<and> c \<noteq> CHR 0x22 \<and> c \<noteq> CHR 0x5C) n \<longrightarrow>
              jsonString n = CHR 0x22 # n @ [CHR 0x22])
       \<and> (\<forall>vs hs. distinct vs \<and> distinct (visibleFields pol) \<and> set vs = set (visibleFields pol) \<and>
                  distinct hs \<and> distinct (hiddenFields pol) \<and> set hs = set (hiddenFields pol) \<longrightarrow>
                  computePolicyHash E (sort vs) (sort hs) = cr_policyHash r1)\<close>
proof -
  from tokenCreate_SuccessD [OF assms(1)]
  obtain pol1 where p1: "catalog s (policyId req1) = Some pol1"
    and cat1: "catalog s1 = (catalog s)(policyId req1 \<mapsto> sortFields pol1)"
    and h1': "cr_policyHash r1 =
               computePolicyHash E (sort (visibleFields pol1)) (sort (hiddenFields pol1))"
    by blast
  from p1 assms(4) have "pol1 = pol" by simp
  with cat1 h1' have c1: "catalog s1 (policyId req1) = Some (sortFields pol)"
    and h1: "cr_policyHash r1 =
               computePolicyHash E (sort (visibleFields pol)) (sort (hiddenFields pol))"
    by simp_all
  from issueAll_catalog_sorted [OF c1, of E reqs]
  have later: "catalog (issueAll E s1 reqs) (policyId req2) = Some (sortFields pol)"
    by (simp add: assms(3))
  from tokenCreate_SuccessD [OF assms(2)]
  obtain pol2 where p2: "catalog (issueAll E s1 reqs) (policyId req2) = Some pol2"
    and h2': "cr_policyHash r2 =
               computePolicyHash E (sort (visibleFields pol2)) (sort (hiddenFields pol2))"
    by blast
  from p2 later have "pol2 = sortFields pol" by simp
  with h2' h1 have h2: "cr_policyHash r2 = cr_policyHash r1"
    by (simp add: sortFields_def sorted_sort_id)
  show ?thesis
  proof (intro conjI allI impI)
    show "cr_policyHash r2 = cr_policyHash r1" by (rule h2)
    show \<open>cr_policyHash r1 =
           sha256hex E
             (''{"visible":['' @ joinWith '','' (map jsonString (sort (visibleFields pol))) @
              ''],"hidden":['' @ joinWith '','' (map jsonString (sort (hiddenFields pol))) @
              '']}'')\<close>
      using h1 by (simp add: computePolicyHash_def policyJSON_def jsonArray_def jsonString_def
          jsonChar_def)
    show "jsonString n = CHR 0x22 # n @ [CHR 0x22]"
      if "list_all (\<lambda>c. 32 \<le> (of_char c :: nat) \<and> c \<noteq> CHR 0x22 \<and> c \<noteq> CHR 0x5C) n" for n
      using that by (rule jsonString_plain)
    show "computePolicyHash E (sort vs) (sort hs) = cr_policyHash r1"
      if a: "distinct vs \<and> distinct (visibleFields pol) \<and> set vs = set (visibleFields pol) \<and>
                  distinct hs \<and> distinct (hiddenFields pol) \<and> set hs = set (hiddenFields pol)"
      for vs hs
    proof -
      from a have "sort vs = sort (visibleFields pol)" by (intro sort_set_unique) simp_all
      moreover from a have "sort hs = sort (hiddenFields pol)" by (intro sort_set_unique) simp_all
      ultimately show ?thesis by (simp only: h1)
    qed
  qed
qed

theorem policy_hash_deterministic_witness:
  \<open>\<exists>s1 r1 s2 r2.
     tokenCreate testExt 0 initialServer (demoRequest ''id-renewal'') = (s1, Success r1) \<and>
     tokenCreate testExt 9 (issueAll testExt s1 [(5, demoRequest ''tax-filing'')])
       (demoRequest ''id-renewal'') = (s2, Success r2) \<and>
     cr_policyHash r2 = cr_policyHash r1 \<and>
     cr_policyHash r1 =
       sha256hex testExt
         ''{"visible":["address","dateOfBirth","name","nationalId"],"hidden":["bankAccount","email","medicalHistory","phone","propertyRecords","taxRecords"]}'' \<and>
     policyJSON (cr_visibleFields r1) (cr_hiddenFields r1) =
         ''{"visible":["address","dateOfBirth","name","nationalId"],"hidden":["bankAccount","email","medicalHistory","phone","propertyRecords","taxRecords"]}'' \<and>
     jsonString ''name'' = [CHR 0x22, CHR ''n'', CHR ''a'', CHR ''m'', CHR ''e'', CHR 0x22] \<and>
     tokenId r2 \<noteq> tokenId r1 \<and>
     cr_recordCommitment r2 \<noteq> cr_recordCommitment r1\<close>
proof -
  let ?P0 = "\<lparr>p_name = ''National ID Renewal'',
           p_description = ''Access to basic identity information for ID renewal'',
           visibleFields = [''name'', ''nationalId'', ''dateOfBirth'', ''address''],
           hiddenFields = [''phone'', ''email'', ''taxRecords'', ''bankAccount'',
                           ''medicalHistory'', ''propertyRecords''],
           allowedActions = [''view_id_info'', ''submit_renewal_application'', ''upload_photo'']\<rparr>"
  let ?P1 = "\<lparr>p_name = ''National ID Renewal'',
           p_description = ''Access to basic identity information for ID renewal'',
           visibleFields = [''address'', ''dateOfBirth'', ''name'', ''nationalId''],
           hiddenFields = [''bankAccount'', ''email'', ''medicalHistory'', ''phone'',
                           ''propertyRecords'', ''taxRecords''],
           allowedActions = [''view_id_info'', ''submit_renewal_application'', ''upload_photo'']\<rparr>"
  let ?T0 = "\<lparr>p_name = ''Tax Filing Assistance'',
         p_description = ''Access to financial information for tax preparation'',
         visibleFields = [''name'', ''nationalId'', ''taxRecords'', ''bankAccount''],
         hiddenFields = [''dateOfBirth'', ''address'', ''phone'', ''email'',
                         ''medicalHistory'', ''propertyRecords''],
         allowedActions = [''view_tax_info'', ''submit_tax_return'', ''download_tax_certificate'']\<rparr>"
  obtain s1 r1 payload st d rec where
    tc: "tokenCreate testExt 0 initialServer (demoRequest ''id-renewal'') = (s1, Success r1)"
    and cat1: "catalog s1 = (catalog (initialServer :: int server))(''id-renewal'' \<mapsto> ?P1)"
    and rng1: "rngCounter s1 = 11"
    and tid: "tokenId r1 = padStart 32 CHR ''0'' (toString16 (3 mod 256 ^ 16))"
    and rec: "citizenDB ''citizen-001'' = Some rec"
    and sp1: "serializePoint testExt (Point (sum_list (expectedPoints 1 rec))) =
                Inr (cr_recordCommitment r1)"
    by (rule idrenewal_run)
  from cat1 taxfiling_policy have catT: "catalog s1 ''tax-filing'' = Some ?T0" by simp
  from sorted_demo_lists(3) [OF rec]
  have keysT: "set (visibleFields ?T0) \<union> set (hiddenFields ?T0) \<subseteq> fst ` set rec" by simp
  have neT: "visibleFields ?T0 \<noteq> []" "hiddenFields ?T0 \<noteq> []" by simp_all
  from rng1 have smallT: "rngCounter s1 < 90000" by simp
  obtain sA rA where
    tcA: "tokenCreate testExt 5 s1 (demoRequest ''tax-filing'') = (sA, Success rA)"
    and catA: "catalog sA = (catalog s1)(''tax-filing'' \<mapsto> sortFields ?T0)"
    and rngA: "rngCounter sA = rngCounter s1 + 11"
    by (rule testExt_run [OF catT smallT rec keysT neT, of 5])
  from tcA have sX: "issueAll testExt s1 [(5, demoRequest ''tax-filing'')] = sA" by simp
  from catA cat1 have cat2: "catalog sA ''id-renewal'' = Some ?P1" by simp
  from sorted_demo_lists(2) [OF rec]
  have keys2: "set (visibleFields ?P1) \<union> set (hiddenFields ?P1) \<subseteq> fst ` set rec" by auto
  have ne2: "visibleFields ?P1 \<noteq> []" "hiddenFields ?P1 \<noteq> []" by simp_all
  from rngA rng1 have small2: "rngCounter sA < 90000" and rngA': "rngCounter sA = 22" by simp_all
  obtain s2 r2 where
    tc2: "tokenCreate testExt 9 sA (demoRequest ''id-renewal'') = (s2, Success r2)"
    and tid2': "tokenId r2 = padStart 32 CHR ''0'' (toString16 ((7 * rngCounter sA + 3) mod 256 ^ 16))"
    and sp2': "serializePoint testExt (Point (sum_list (expectedPoints (Suc (rngCounter sA)) rec))) =
                Inr (cr_recordCommitment r2)"
    by (rule testExt_run [OF cat2 small2 rec keys2 ne2, of 9])
  note tc2X = tc2 [folded sX]
  note concl = policy_hash_deterministic [OF tc tc2X refl idrenewal_request]
  from concl have eq: "cr_policyHash r2 = cr_policyHash r1" by (rule conjunct1)
  from concl [THEN conjunct2, THEN conjunct1]
  have json: \<open>cr_policyHash r1 =
       sha256hex testExt
         ''{"visible":["address","dateOfBirth","name","nationalId"],"hidden":["bankAccount","email","medicalHistory","phone","propertyRecords","taxRecords"]}''\<close>
    by (simp add: demo_sorts jsonString_def jsonChar_def)
  from concl [THEN conjunct2, THEN conjunct2, THEN conjunct1, THEN spec [where x = "''name''"]]
  have plain: "jsonString ''name'' = [CHR 0x22, CHR ''n'', CHR ''a'', CHR ''m'', CHR ''e'', CHR 0x22]"
    by simp
  from tokenCreate_SuccessD [OF tc] idrenewal_request
  have "cr_visibleFields r1 = sort (visibleFields ?P0)" "cr_hiddenFields r1 = sort (hiddenFields ?P0)"
    by auto
  then have jtext: \<open>policyJSON (cr_visibleFields r1) (cr_hiddenFields r1) =
         ''{"visible":["address","dateOfBirth","name","nationalId"],"hidden":["bankAccount","email","medicalHistory","phone","propertyRecords","taxRecords"]}''\<close>
    by (simp add: demo_sorts id_renewal_json)
  from tid2' rngA' have tid2: "tokenId r2 = padStart 32 CHR ''0'' (toString16 (157 mod 256 ^ 16))"
    by simp
  have ne: "tokenId r2 \<noteq> tokenId r1"
  proof
    assume "tokenId r2 = tokenId r1"
    with tid tid2 have "(157 :: nat) mod 256 ^ 16 = 3 mod 256 ^ 16"
      by (metis padded_hex_inj)
    then show False by simp
  qed
  let ?a = "sum_list (expectedPoints 1 rec)" and ?b = "sum_list (expectedPoints 23 rec)"
  from sp2' rngA' have sp2: "serializePoint testExt (Point ?b) = Inr (cr_recordCommitment r2)"
    by simp
  from citizen_lookup(2,3) [OF rec] have pos: "0 < ?a" and len: "length rec = 10"
    by (simp_all add: expectedPoints_pos)
  from expectedPoints_shift [of 23 rec 1] len have shift: "?b = ?a + 36960" by simp
  have neC: "cr_recordCommitment r2 \<noteq> cr_recordCommitment r1"
  proof
    assume "cr_recordCommitment r2 = cr_recordCommitment r1"
    then have "sx (cr_recordCommitment r2) = sx (cr_recordCommitment r1)" by simp
    with testExt_serializePoint [OF sp1] testExt_serializePoint [OF sp2]
    have "padStart 64 CHR ''0'' (toString16 (nat \<bar>?b\<bar>)) =
          padStart 64 CHR ''0'' (toString16 (nat \<bar>?a\<bar>))"
      by simp
    then have "nat \<bar>?b\<bar> = nat \<bar>?a\<bar>" by (rule padded_hex_inj)
    with pos shift show False by simp
  qed
  show ?thesis
    apply (rule exI [of _ s1], rule exI [of _ r1], rule exI [of _ s2], rule exI [of _ r2])
    apply (intro conjI)
           apply (rule tc)
          apply (rule tc2X)
         apply (rule eq)
        apply (rule json)
       apply (rule jtext)
      apply (rule plain)
     apply (rule ne)
    apply (rule neC)
    done
qed

end
